theory Spec2Isabelle
  imports Main "HOL-Library.Word"
begin

section \<open>The deduplicating file vault: upload and delete handlers\<close>

text \<open>
  The embedding follows the server of the repository (the Hono application with the routes
  \<^verbatim>\<open>POST /upload\<close> and \<^verbatim>\<open>DELETE /files/:fileId\<close>). The generic key-value table is
  read as three keyed collections, one per key prefix: \<^verbatim>\<open>file:<hash>\<close> keys hold the
  content records, \<^verbatim>\<open>file_ref:<id>\<close> keys the user file references and \<^verbatim>\<open>quota:<user>\<close> keys
  the quota records. The prefixes differ, so the three sets of keys never meet.
  JavaScript numbers are integers here (sizes, counters and clock readings stay far below
  the range where a double stops being exact). Each handler is one atomic step; the
  key-value table itself never fails. The browser-side functions
  \<^verbatim>\<open>uploadFilesClientSide\<close> and \<^verbatim>\<open>deleteFileClientSide\<close> repeat the same loop and the same
  delete steps against the same table; the theorems are stated for the server's handlers.
\<close>

type_synonym byte = "8 word"

subsection \<open>String helpers of the JavaScript runtime\<close>

definition startsWith :: "string \<Rightarrow> string \<Rightarrow> bool" where
  "startsWith s p = (take (length p) s = p)"

fun str_includes :: "string \<Rightarrow> string \<Rightarrow> bool" where
  "str_includes [] p = (p = [])"
| "str_includes (c # cs) p = (startsWith (c # cs) p \<or> str_includes cs p)"

text \<open>\<^verbatim>\<open>b.toString(16).padStart(2, '0')\<close> for a byte, and the join over an array.\<close>

definition hex_digit :: "nat \<Rightarrow> char" where
  "hex_digit n = ''0123456789abcdef'' ! n"

definition hex2 :: "byte \<Rightarrow> string" where
  "hex2 b = [hex_digit (unat b div 16), hex_digit (unat b mod 16)]"

definition to_hex :: "byte list \<Rightarrow> string" where
  "to_hex bs = concat (map hex2 bs)"

text \<open>The decimal rendering of a clock reading inside a template string.\<close>

fun show_nat :: "nat \<Rightarrow> string" where
  "show_nat n =
     (if n < 10 then [''0123456789'' ! n]
      else show_nat (n div 10) @ [''0123456789'' ! (n mod 10)])"

declare show_nat.simps [simp del]

text \<open>\<^verbatim>\<open>a || b\<close> on strings: the empty string is falsy.\<close>

definition js_or :: "string \<Rightarrow> string \<Rightarrow> string" where
  "js_or a b = (if a \<noteq> [] then a else b)"

subsection \<open>Hashing and magic numbers\<close>

text \<open>
  \<^verbatim>\<open>calculateFileHash\<close>: the SHA-256 digest comes from the runtime's crypto library; it is
  the parameter \<open>D\<close> of everything below, and the hex encoding around it is the code's own.
\<close>

definition calculateFileHash :: "(byte list \<Rightarrow> byte list) \<Rightarrow> byte list \<Rightarrow> string" where
  "calculateFileHash D fileData = to_hex (D fileData)"

definition getMimeTypeFromBuffer :: "byte list \<Rightarrow> string" where
  "getMimeTypeFromBuffer buffer =
     (if length buffer < 4 then ''application/octet-stream''
      else let hex = to_hex (take 4 buffer) in
        if startsWith hex ''89504e47'' then ''image/png''
        else if startsWith hex ''ffd8ff'' then ''image/jpeg''
        else if startsWith hex ''47494638'' then ''image/gif''
        else if startsWith hex ''25504446'' then ''application/pdf''
        else if startsWith hex ''504b0304'' then ''application/zip''
        else ''application/octet-stream'')"

text \<open>The condition under which the upload loop prints its MIME warning.\<close>

definition mime_mismatch :: "string \<Rightarrow> string \<Rightarrow> bool" where
  "mime_mismatch declaredMimeType actualMimeType =
     (declaredMimeType \<noteq> []
      \<and> \<not> startsWith declaredMimeType (takeWhile (\<lambda>c. c \<noteq> CHR ''/'') actualMimeType)
      \<and> actualMimeType \<noteq> ''application/octet-stream'')"

subsection \<open>Stored values\<close>

text \<open>The value under \<^verbatim>\<open>file:<hash>\<close>: one record per stored content.\<close>

record file_data =
  fd_hash :: string
  fd_mime_type :: string
  fd_size :: int
  fd_storage_path :: string
  fd_reference_count :: int
  fd_created_at :: nat

text \<open>The value under \<^verbatim>\<open>file_ref:<id>\<close>: one record per uploaded file of a user.\<close>

record file_reference =
  fr_id :: string
  fr_hash :: string
  fr_filename :: string
  fr_mime_type :: string
  fr_size :: int
  fr_upload_date :: nat
  fr_uploader_id :: string
  fr_uploader_name :: string
  fr_is_public :: bool
  fr_folder_id :: "string option"
  fr_tags :: "string list"
  fr_storage_path :: string
  fr_download_count :: int
  fr_is_deduplicated :: bool
  fr_reference_count :: int

text \<open>The value under \<^verbatim>\<open>quota:<user>\<close>. The rate limiter creates it without a user id.\<close>

record quota =
  q_user_id :: "string option"
  q_storage_used :: int
  q_storage_limit :: int
  q_rate_limit :: int
  q_last_request_time :: int
  q_request_count :: int

record user_data =
  u_id :: string
  u_email :: string
  u_name :: string
  u_is_admin :: bool
  u_created_at :: string

datatype storage_call = UploadCall string | RemoveCall string

datatype log_entry =
  Warn string string string
| LogError string

text \<open>
  The whole store: the three collections, the user records, the storage bucket (path to
  bytes and content type), and two traces that only record what the handlers did: the lines
  written to the console and the calls made to the storage service.
\<close>

record state =
  files :: "string \<rightharpoonup> file_data"
  file_refs :: "string \<rightharpoonup> file_reference"
  quotas :: "string \<rightharpoonup> quota"
  users :: "string \<rightharpoonup> user_data"
  bucket :: "string \<rightharpoonup> (byte list \<times> string)"
  console :: "log_entry list"
  storage_calls :: "storage_call list"

definition init_state :: state where
  "init_state = \<lparr> files = Map.empty, file_refs = Map.empty, quotas = Map.empty,
     users = Map.empty, bucket = Map.empty, console = [], storage_calls = [] \<rparr>"

definition DEFAULT_STORAGE_LIMIT :: int where
  "DEFAULT_STORAGE_LIMIT = 10 * 1024 * 1024"

definition DEFAULT_RATE_LIMIT :: int where
  "DEFAULT_RATE_LIMIT = 2"

subsection \<open>Requests and responses\<close>

record auth_user =
  au_id :: string
  au_email :: string

text \<open>
  The bearer token of a request: absent, rejected by the identity provider
  (\<^verbatim>\<open>getUserFromToken\<close> throws), or resolved to a user.
\<close>

datatype credentials = NoToken | InvalidToken | Valid auth_user

text \<open>
  One file of the multipart form. \<open>f_clock\<close> is what \<^verbatim>\<open>Date.now()\<close> returns while the loop
  handles this file; \<open>f_fault\<close> is the message of a storage failure that the service reports
  for this file's upload, if it reports one.
\<close>

record upload_file =
  f_name :: string
  f_type :: string
  f_data :: "byte list"
  f_clock :: nat
  f_fault :: "string option"

record upload_request =
  up_auth :: credentials
  up_now :: int
  up_files :: "upload_file list"
  up_tags :: "string list"
  up_folder_id :: "string option"
  up_is_public :: bool

text \<open>
  The responses by HTTP status: 200 for an upload (with the created references) and for a
  delete, 400, 401, 403, 404, 413, 429 and 500 (with the error message).
\<close>

datatype response =
  Success "file_reference list"
| Deleted
| BadRequest
| Unauthorized
| Forbidden
| NotFound
| QuotaExceeded
| RateLimited
| ServerError string

subsection \<open>The rate limiter\<close>

definition checkRateLimit :: "state \<Rightarrow> string \<Rightarrow> int \<Rightarrow> bool \<times> state" where
  "checkRateLimit s userId now =
     (case quotas s userId of
        None \<Rightarrow>
          (True, s\<lparr>quotas := (quotas s)(userId \<mapsto>
             \<lparr> q_user_id = None, q_storage_used = 0, q_storage_limit = DEFAULT_STORAGE_LIMIT,
               q_rate_limit = DEFAULT_RATE_LIMIT, q_last_request_time = now,
               q_request_count = 1 \<rparr>)\<rparr>)
      | Some quota \<Rightarrow>
          if now - q_last_request_time quota \<ge> 1000 then
            (True, s\<lparr>quotas := (quotas s)(userId \<mapsto>
               quota\<lparr>q_last_request_time := now, q_request_count := 1\<rparr>)\<rparr>)
          else if q_request_count quota \<ge> q_rate_limit quota then (False, s)
          else
            (True, s\<lparr>quotas := (quotas s)(userId \<mapsto>
               quota\<lparr>q_request_count := q_request_count quota + 1\<rparr>)\<rparr>))"

subsection \<open>The storage service\<close>

text \<open>
  \<^verbatim>\<open>storage.upload(path, data, {contentType, upsert: false})\<close>: the service refuses to
  overwrite an existing object and says so in its error message; any other failure is the
  fault given with the file. \<^verbatim>\<open>storage.remove([path])\<close> deletes the object; the handler never
  looks at its result.
\<close>

definition storage_upload ::
  "state \<Rightarrow> string \<Rightarrow> byte list \<Rightarrow> string \<Rightarrow> string option \<Rightarrow> string option \<times> state" where
  "storage_upload s path body contentType fault =
     (let s' = s\<lparr>storage_calls := storage_calls s @ [UploadCall path]\<rparr> in
      case fault of
        Some msg \<Rightarrow> (Some msg, s')
      | None \<Rightarrow>
          (case bucket s path of
             Some obj \<Rightarrow> (Some ''The resource already exists'', s')
           | None \<Rightarrow> (None, s'\<lparr>bucket := (bucket s)(path \<mapsto> (body, contentType))\<rparr>)))"

definition storage_remove :: "state \<Rightarrow> string \<Rightarrow> state" where
  "storage_remove s path =
     s\<lparr>bucket := (bucket s)(path := None),
       storage_calls := storage_calls s @ [RemoveCall path]\<rparr>"

subsection \<open>Upload\<close>

definition quota_exceeded :: "quota option \<Rightarrow> int \<Rightarrow> int \<Rightarrow> bool" where
  "quota_exceeded quotaData totalSize fileSize =
     (case quotaData of
        None \<Rightarrow> False
      | Some q \<Rightarrow> q_storage_used q + totalSize + fileSize > q_storage_limit q)"

text \<open>How one round of the loop can leave it early: the 413 response, or an exception.\<close>

datatype stop = Quota413 | Thrown string

text \<open>
  The second half of a round, from \<^verbatim>\<open>// Create user file reference\<close> on:
  \<open>existingFile\<close> is the content record in hand (found, or just created with count 0).
\<close>

definition store_reference ::
  "auth_user \<Rightarrow> user_data option \<Rightarrow> upload_request \<Rightarrow> upload_file \<Rightarrow> string \<Rightarrow>
   file_data \<Rightarrow> bool \<Rightarrow> state \<Rightarrow> file_reference \<times> state" where
  "store_reference user userData req file fileHash existingFile isDeduplicated s =
     (let fileId = au_id user @ '':'' @ fileHash @ '':'' @ show_nat (f_clock file);
          fileReference =
            \<lparr> fr_id = fileId, fr_hash = fileHash, fr_filename = f_name file,
              fr_mime_type = fd_mime_type existingFile, fr_size = fd_size existingFile,
              fr_upload_date = f_clock file, fr_uploader_id = au_id user,
              fr_uploader_name =
                js_or (case userData of None \<Rightarrow> [] | Some ud \<Rightarrow> u_name ud) (au_email user),
              fr_is_public = up_is_public req, fr_folder_id = up_folder_id req,
              fr_tags = up_tags req, fr_storage_path = fd_storage_path existingFile,
              fr_download_count = 0, fr_is_deduplicated = isDeduplicated,
              fr_reference_count = fd_reference_count existingFile + 1 \<rparr>;
          s1 = s\<lparr>file_refs := (file_refs s)(fileId \<mapsto> fileReference)\<rparr>;
          s2 = s1\<lparr>files := (files s1)(fileHash \<mapsto>
                 existingFile\<lparr>fd_reference_count := fd_reference_count existingFile + 1\<rparr>)\<rparr>
      in (fileReference, s2))"

text \<open>The MIME check of a round: a mismatch writes a warning and nothing else.\<close>

definition warn_mismatch :: "upload_file \<Rightarrow> state \<Rightarrow> state" where
  "warn_mismatch file s =
     (let declaredMimeType = f_type file;
          actualMimeType = getMimeTypeFromBuffer (f_data file)
      in if mime_mismatch declaredMimeType actualMimeType
         then s\<lparr>console := console s @
                [Warn (f_name file) declaredMimeType actualMimeType]\<rparr>
         else s)"

text \<open>
  One round of \<^verbatim>\<open>for (const file of files)\<close>. On a normal end it gives the new running
  total and the reference it pushed.
\<close>

definition upload_one ::
  "(byte list \<Rightarrow> byte list) \<Rightarrow> auth_user \<Rightarrow> user_data option \<Rightarrow> quota option \<Rightarrow>
   upload_request \<Rightarrow> upload_file \<Rightarrow> int \<Rightarrow> state \<Rightarrow> (stop + int \<times> file_reference) \<times> state" where
  "upload_one D user userData quotaData req file totalSize s =
     (let fileData = f_data file; fileSize = int (length fileData) in
      if quota_exceeded quotaData totalSize fileSize then (Inl Quota413, s)
      else
        let fileHash = calculateFileHash D fileData;
            declaredMimeType = f_type file;
            actualMimeType = getMimeTypeFromBuffer fileData;
            s1 = warn_mismatch file s
        in
          case files s1 fileHash of
            Some existingFile \<Rightarrow>
              (case store_reference user userData req file fileHash existingFile True s1 of
                 (fileReference, s2) \<Rightarrow> (Inr (totalSize, fileReference), s2))
          | None \<Rightarrow>
              (case storage_upload s1 fileHash fileData
                      (js_or declaredMimeType actualMimeType) (f_fault file) of
                 (uploadError, s2) \<Rightarrow>
                   (case (case uploadError of
                            None \<Rightarrow> None
                          | Some msg \<Rightarrow>
                              if \<not> str_includes msg ''already exists'' then Some msg else None) of
                      Some msg \<Rightarrow>
                        (Inl (Thrown (''Failed to upload file: '' @ msg)),
                         s2\<lparr>console := console s2 @ [LogError msg]\<rparr>)
                    | None \<Rightarrow>
                        let existingFile =
                              \<lparr> fd_hash = fileHash,
                                fd_mime_type = js_or declaredMimeType actualMimeType,
                                fd_size = fileSize, fd_storage_path = fileHash,
                                fd_reference_count = 0, fd_created_at = f_clock file \<rparr>;
                            s3 = s2\<lparr>files := (files s2)(fileHash \<mapsto> existingFile)\<rparr>
                        in
                          (case store_reference user userData req file fileHash
                                  existingFile False s3 of
                             (fileReference, s4) \<Rightarrow>
                               (Inr (totalSize + fileSize, fileReference), s4)))))"

fun upload_loop ::
  "(byte list \<Rightarrow> byte list) \<Rightarrow> auth_user \<Rightarrow> user_data option \<Rightarrow> quota option \<Rightarrow>
   upload_request \<Rightarrow> upload_file list \<Rightarrow> int \<Rightarrow> file_reference list \<Rightarrow> state \<Rightarrow>
   (stop + int \<times> file_reference list) \<times> state" where
  "upload_loop D user userData quotaData req [] totalSize uploadedFiles s =
     (Inr (totalSize, uploadedFiles), s)"
| "upload_loop D user userData quotaData req (file # rest) totalSize uploadedFiles s =
     (case upload_one D user userData quotaData req file totalSize s of
        (Inl early, s') \<Rightarrow> (Inl early, s')
      | (Inr (totalSize', fileReference), s') \<Rightarrow>
          upload_loop D user userData quotaData req rest totalSize'
            (uploadedFiles @ [fileReference]) s')"

text \<open>
  The handler of \<^verbatim>\<open>POST /upload\<close>. The quota record is read once, after the rate limiter
  has written it, and written back once, after the loop; an early 413 returns from inside
  the loop, and anything thrown is caught, logged and answered with 500.
\<close>

definition upload_handler ::
  "(byte list \<Rightarrow> byte list) \<Rightarrow> state \<Rightarrow> upload_request \<Rightarrow> response \<times> state" where
  "upload_handler D s req =
     (case up_auth req of
        NoToken \<Rightarrow> (Unauthorized, s)
      | InvalidToken \<Rightarrow>
          (ServerError ''Unauthorized'', s\<lparr>console := console s @ [LogError ''Unauthorized'']\<rparr>)
      | Valid user \<Rightarrow>
          (case checkRateLimit s (au_id user) (up_now req) of
             (allowed, s1) \<Rightarrow>
               if \<not> allowed then (RateLimited, s1)
               else if up_files req = [] then (BadRequest, s1)
               else
                 let userData = users s1 (au_id user);
                     quotaData = quotas s1 (au_id user)
                 in
                   (case upload_loop D user userData quotaData req (up_files req) 0 [] s1 of
                      (Inl Quota413, s2) \<Rightarrow> (QuotaExceeded, s2)
                    | (Inl (Thrown msg), s2) \<Rightarrow>
                        (ServerError msg, s2\<lparr>console := console s2 @ [LogError msg]\<rparr>)
                    | (Inr (totalSize, uploadedFiles), s2) \<Rightarrow>
                        (Success uploadedFiles,
                         (case quotaData of
                            None \<Rightarrow> s2
                          | Some q \<Rightarrow>
                              s2\<lparr>quotas := (quotas s2)(au_id user \<mapsto>
                                   q\<lparr>q_storage_used := q_storage_used q + totalSize\<rparr>)\<rparr>)))))"

subsection \<open>Delete\<close>

text \<open>
  The handler of \<^verbatim>\<open>DELETE /files/:fileId\<close>. \<open>fileData\<close> below is the content record after
  \<^verbatim>\<open>reference_count--\<close>; the later test \<^verbatim>\<open>fileData?.reference_count <= 0\<close> is false
  when there is no record.
\<close>

definition delete_handler :: "state \<Rightarrow> credentials \<Rightarrow> string \<Rightarrow> response \<times> state" where
  "delete_handler s cred fileId =
     (case cred of
        NoToken \<Rightarrow> (Unauthorized, s)
      | InvalidToken \<Rightarrow>
          (ServerError ''Unauthorized'', s\<lparr>console := console s @ [LogError ''Unauthorized'']\<rparr>)
      | Valid user \<Rightarrow>
          (case file_refs s fileId of
             None \<Rightarrow> (NotFound, s)
           | Some fileRef \<Rightarrow>
               if fr_uploader_id fileRef \<noteq> au_id user then (Forbidden, s)
               else
                 let fileHash = fr_hash fileRef;
                     fileData = map_option
                       (\<lambda>fd. fd\<lparr>fd_reference_count := fd_reference_count fd - 1\<rparr>)
                       (files s fileHash);
                     s1 = (case fileData of
                             None \<Rightarrow> s
                           | Some fd \<Rightarrow>
                               if fd_reference_count fd \<le> 0 then
                                 (let sr = storage_remove s (fd_storage_path fd)
                                  in sr\<lparr>files := (files sr)(fileHash := None)\<rparr>)
                               else s\<lparr>files := (files s)(fileHash \<mapsto> fd)\<rparr>);
                     s2 = s1\<lparr>file_refs := (file_refs s1)(fileId := None)\<rparr>;
                     s3 = (case quotas s2 (au_id user) of
                             None \<Rightarrow> s2
                           | Some quotaData \<Rightarrow>
                               if (case fileData of
                                     None \<Rightarrow> False
                                   | Some fd \<Rightarrow> fd_reference_count fd \<le> 0)
                               then s2\<lparr>quotas := (quotas s2)(au_id user \<mapsto>
                                      quotaData\<lparr>q_storage_used :=
                                        max 0 (q_storage_used quotaData - fr_size fileRef)\<rparr>)\<rparr>
                               else s2)
                 in (Deleted, s3)))"

subsection \<open>Sequences of requests\<close>

datatype request = Upload upload_request | Delete credentials string

definition handle :: "(byte list \<Rightarrow> byte list) \<Rightarrow> state \<Rightarrow> request \<Rightarrow> response \<times> state" where
  "handle D s r =
     (case r of
        Upload req \<Rightarrow> upload_handler D s req
      | Delete cred fileId \<Rightarrow> delete_handler s cred fileId)"

definition run :: "(byte list \<Rightarrow> byte list) \<Rightarrow> state \<Rightarrow> request list \<Rightarrow> state" where
  "run D s rs = foldl (\<lambda>st r. snd (handle D st r)) s rs"

subsection \<open>Notions used by the properties\<close>

text \<open>Every quota record has a byte counter that is not negative.\<close>

definition quota_nonneg :: "state \<Rightarrow> bool" where
  "quota_nonneg s = (\<forall>u q. quotas s u = Some q \<longrightarrow> 0 \<le> q_storage_used q)"

text \<open>The ids of the references that point at a content hash, and the stored count.\<close>

definition refs_to :: "state \<Rightarrow> string \<Rightarrow> string set" where
  "refs_to s h = {i. \<exists>r. file_refs s i = Some r \<and> fr_hash r = h}"

definition stored_count :: "state \<Rightarrow> string \<Rightarrow> int" where
  "stored_count s h = (case files s h of None \<Rightarrow> 0 | Some fd \<Rightarrow> fd_reference_count fd)"

text \<open>
  What holds of every store between two requests: finitely many references, no content
  hash with more references than its count says, and every content record with a count
  of at least one, filed under its own hash.
\<close>

definition counted :: "state \<Rightarrow> bool" where
  "counted s =
     (finite (dom (file_refs s)) \<and> (\<forall>h. int (card (refs_to s h)) \<le> stored_count s h))"

definition positive :: "state \<Rightarrow> bool" where
  "positive s =
     (\<forall>h fd. files s h = Some fd \<longrightarrow> 1 \<le> fd_reference_count fd \<and> fd_storage_path fd = h)"

definition consistent :: "state \<Rightarrow> bool" where
  "consistent s = (counted s \<and> positive s)"

text \<open>
  Two stores that agree on the content records, the references, the bucket and the trace
  of storage calls (they may differ in quota records, user records and console).
\<close>

definition same_storage :: "state \<Rightarrow> state \<Rightarrow> bool" where
  "same_storage a b = (files a = files b \<and> file_refs a = file_refs b \<and> bucket a = bucket b
     \<and> storage_calls a = storage_calls b)"

text \<open>
  A request and its response remove the last reference to hash \<open>h\<close>: a delete that
  succeeded, of a reference to \<open>h\<close>, whose decrement leaves the count of \<open>h\<close> at 0.
\<close>

definition count_reaches_zero :: "state \<Rightarrow> request \<Rightarrow> response \<Rightarrow> string \<Rightarrow> bool" where
  "count_reaches_zero s r resp h =
     (case r of
        Upload req \<Rightarrow> False
      | Delete cred fileId \<Rightarrow>
          resp = Deleted \<and>
          (case file_refs s fileId of
             None \<Rightarrow> False
           | Some fileRef \<Rightarrow>
               fr_hash fileRef = h \<and>
               (case files s h of
                  None \<Rightarrow> False
                | Some fd \<Rightarrow> fd_reference_count fd - 1 = 0)))"



text \<open>The storage calls a step has added to the trace.\<close>

definition new_calls :: "state \<Rightarrow> state \<Rightarrow> storage_call list" where
  "new_calls s s' = drop (length (storage_calls s)) (storage_calls s')"

text \<open>
  The control flow of a round and of the loop, as far as it decides how the loop ends:
  it reads the sizes, the hashes and the storage faults of the files, the quota record
  and the set of hashes that have a content record, and never a declared content type.
\<close>

definition round_outcome ::
  "(byte list \<Rightarrow> byte list) \<Rightarrow> quota option \<Rightarrow> upload_file \<Rightarrow> int \<Rightarrow> string set \<Rightarrow> stop + int" where
  "round_outcome D quotaData file totalSize known =
     (if quota_exceeded quotaData totalSize (int (length (f_data file))) then Inl Quota413
      else if calculateFileHash D (f_data file) \<in> known then Inr totalSize
      else (case f_fault file of
              None \<Rightarrow> Inr (totalSize + int (length (f_data file)))
            | Some msg \<Rightarrow>
                if str_includes msg ''already exists''
                then Inr (totalSize + int (length (f_data file)))
                else Inl (Thrown (''Failed to upload file: '' @ msg))))"

fun loop_outcome ::
  "(byte list \<Rightarrow> byte list) \<Rightarrow> quota option \<Rightarrow> upload_file list \<Rightarrow> int \<Rightarrow> string set \<Rightarrow> stop + int" where
  "loop_outcome D quotaData [] totalSize known = Inr totalSize"
| "loop_outcome D quotaData (file # rest) totalSize known =
     (case round_outcome D quotaData file totalSize known of
        Inl early \<Rightarrow> Inl early
      | Inr totalSize' \<Rightarrow>
          loop_outcome D quotaData rest totalSize'
            (insert (calculateFileHash D (f_data file)) known))"

text \<open>The HTTP status of a response.\<close>

fun response_status :: "response \<Rightarrow> nat" where
  "response_status (Success uploadedFiles) = 200"
| "response_status Deleted = 200"
| "response_status BadRequest = 400"
| "response_status Unauthorized = 401"
| "response_status Forbidden = 403"
| "response_status NotFound = 404"
| "response_status QuotaExceeded = 413"
| "response_status RateLimited = 429"
| "response_status (ServerError msg) = 500"

text \<open>The same files with other declared content types (as far as the list of types goes).\<close>

fun retype :: "string list \<Rightarrow> upload_file list \<Rightarrow> upload_file list" where
  "retype (ty # tys) (file # rest) = file\<lparr>f_type := ty\<rparr> # retype tys rest"
| "retype [] rest = rest"
| "retype tys [] = []"

subsection \<open>Sample data for the closed examples\<close>

text \<open>
  The examples need a concrete digest. \<open>sample_digest\<close> stands in for SHA-256 there and
  nowhere else: every general theorem below holds for an arbitrary digest \<open>D\<close>. The
  examples rely on two things only, both true of SHA-256 as well: equal bytes have equal
  hashes, and the three sample contents have three different hashes.
\<close>

definition sample_digest :: "byte list \<Rightarrow> byte list" where
  "sample_digest bs = take 1 bs"

definition alice :: auth_user where
  "alice = \<lparr> au_id = ''u1'', au_email = ''alice@example.org'' \<rparr>"

definition bob :: auth_user where
  "bob = \<lparr> au_id = ''u2'', au_email = ''bob@example.org'' \<rparr>"

definition png_bytes :: "byte list" where
  "png_bytes = [0x89, 0x50, 0x4e, 0x47]"

definition note_bytes :: "byte list" where
  "note_bytes = [0x68, 0x65, 0x6c, 0x6c, 0x6f]"

definition long_bytes :: "byte list" where
  "long_bytes = [0x25, 0x50, 0x44, 0x46, 0x2d, 0x31, 0x2e, 0x34]"

definition alice_png :: upload_file where
  "alice_png = \<lparr> f_name = ''a.png'', f_type = ''image/png'', f_data = png_bytes,
     f_clock = 5, f_fault = None \<rparr>"

definition bob_png :: upload_file where
  "bob_png = \<lparr> f_name = ''b.txt'', f_type = ''text/plain'', f_data = png_bytes,
     f_clock = 7, f_fault = None \<rparr>"

definition bob_note :: upload_file where
  "bob_note = \<lparr> f_name = ''note.txt'', f_type = ''text/plain'', f_data = note_bytes,
     f_clock = 1, f_fault = None \<rparr>"

definition alice_pdf :: upload_file where
  "alice_pdf = \<lparr> f_name = ''long.pdf'', f_type = ''application/pdf'', f_data = long_bytes,
     f_clock = 6, f_fault = None \<rparr>"

definition upload_by :: "auth_user \<Rightarrow> int \<Rightarrow> upload_file list \<Rightarrow> upload_request" where
  "upload_by user now fs = \<lparr> up_auth = Valid user, up_now = now, up_files = fs,
     up_tags = [], up_folder_id = None, up_is_public = False \<rparr>"

text \<open>
  Bob stores a note, Alice stores a picture, Bob uploads the same picture bytes under
  another name and type.
\<close>

definition history1 :: "request list" where
  "history1 = [Upload (upload_by bob 1000 [bob_note])]"

definition history2 :: "request list" where
  "history2 = history1 @ [Upload (upload_by alice 5000 [alice_png])]"

definition history3 :: "request list" where
  "history3 = history2 @ [Upload (upload_by bob 7000 [bob_png])]"

definition store1 :: state where
  "store1 = run sample_digest init_state history1"

definition store2 :: state where
  "store2 = run sample_digest init_state history2"

definition store3 :: state where
  "store3 = run sample_digest init_state history3"

definition png_record :: file_data where
  "png_record = \<lparr> fd_hash = ''89'', fd_mime_type = ''image/png'', fd_size = 4,
     fd_storage_path = ''89'', fd_reference_count = 1, fd_created_at = 5 \<rparr>"

definition bob_ref :: file_reference where
  "bob_ref = \<lparr> fr_id = ''u2:89:7'', fr_hash = ''89'', fr_filename = ''b.txt'',
     fr_mime_type = ''image/png'', fr_size = 4, fr_upload_date = 7,
     fr_uploader_id = ''u2'', fr_uploader_name = ''bob@example.org'',
     fr_is_public = False, fr_folder_id = None, fr_tags = [],
     fr_storage_path = ''89'', fr_download_count = 0,
     fr_is_deduplicated = True, fr_reference_count = 2 \<rparr>"

definition alice_ref :: file_reference where
  "alice_ref = \<lparr> fr_id = ''u1:89:5'', fr_hash = ''89'', fr_filename = ''a.png'',
     fr_mime_type = ''image/png'', fr_size = 4, fr_upload_date = 5,
     fr_uploader_id = ''u1'', fr_uploader_name = ''alice@example.org'',
     fr_is_public = False, fr_folder_id = None, fr_tags = [],
     fr_storage_path = ''89'', fr_download_count = 0,
     fr_is_deduplicated = False, fr_reference_count = 1 \<rparr>"

text \<open>A store whose only reference points at a hash that has no content record.\<close>

definition orphan_store :: state where
  "orphan_store = init_state\<lparr>file_refs := [''u1:89:5'' \<mapsto> alice_ref]\<rparr>"

text \<open>The store after Alice's first successful delete of her picture in \<open>store2\<close>.\<close>

definition after_delete :: state where
  "after_delete = snd (delete_handler store2 (Valid alice) ''u1:89:5'')"

text \<open>
  Two owners share one picture and both delete it, Alice first; and Bob's quota record
  at the end.
\<close>

definition share_and_delete :: "request list" where
  "share_and_delete =
     [Upload (upload_by alice 5000 [alice_png]), Upload (upload_by bob 7000 [bob_png]),
      Delete (Valid alice) ''u1:89:5'', Delete (Valid bob) ''u2:89:7'']"

definition bob_last_quota :: quota where
  "bob_last_quota = \<lparr> q_user_id = None, q_storage_used = 0, q_storage_limit = 10485760,
     q_rate_limit = 2, q_last_request_time = 7000, q_request_count = 1 \<rparr>"

text \<open>
  Quota records with a small configured limit, and the stores that hold them: Bob with 5
  of 8 bytes in use next to Alice's picture, Alice with 0 of 10 in use.
\<close>

definition tight_quota :: "string \<Rightarrow> int \<Rightarrow> int \<Rightarrow> quota" where
  "tight_quota userId used limit = \<lparr> q_user_id = Some userId, q_storage_used = used,
     q_storage_limit = limit, q_rate_limit = DEFAULT_RATE_LIMIT,
     q_last_request_time = 1000, q_request_count = 1 \<rparr>"

definition bob_tight_store :: state where
  "bob_tight_store = store2\<lparr>quotas := (quotas store2)(''u2'' \<mapsto> tight_quota ''u2'' 5 8)\<rparr>"

definition alice_tight_store :: state where
  "alice_tight_store = store1\<lparr>quotas := (quotas store1)(''u1'' \<mapsto> tight_quota ''u1'' 0 10)\<rparr>"

text \<open>The stores that two of the examples' uploads leave.\<close>

definition after_bob_png :: state where
  "after_bob_png = snd (upload_handler sample_digest store2 (upload_by bob 7000 [bob_png]))"

definition after_batch :: state where
  "after_batch = snd (upload_handler sample_digest alice_tight_store
                        (upload_by alice 5000 [alice_png, alice_pdf]))"

text \<open>The store after the one round of Bob's upload of the picture bytes.\<close>

definition after_bob_round :: state where
  "after_bob_round =
     snd (upload_one sample_digest bob None None (upload_by bob 7000 [bob_png]) bob_png 0 store2)"

text \<open>
  Alice sends the picture twice in one request, both rounds at the same clock reading,
  and Bob uploads the same bytes.
\<close>

definition history_twice :: "request list" where
  "history_twice =
     [Upload (upload_by alice 5000 [alice_png, alice_png]), Upload (upload_by bob 7000 [bob_png])]"

definition store_twice :: state where
  "store_twice = run sample_digest init_state history_twice"




section \<open>Delete: authorisation and the missing content record\<close>

text \<open>
  C6. A delete by a caller who is not the uploader of an existing reference answers 403 and
  leaves the whole store as it was: the reference, the content record and its count, the
  bucket and every quota record.
\<close>

theorem delete_by_other_owner_forbidden:
  assumes "file_refs s fileId = Some fileRef"
    and "fr_uploader_id fileRef \<noteq> au_id ownerA"
  shows "delete_handler s (Valid ownerA) fileId = (Forbidden, s)"
  using assms by (simp add: delete_handler_def)

text \<open>Bob asks to delete Alice's picture.\<close>

theorem delete_by_other_owner_forbidden_witness:
  "file_refs store2 ''u1:89:5'' = Some alice_ref
   \<and> fr_uploader_id alice_ref \<noteq> au_id bob
   \<and> delete_handler store2 (Valid bob) ''u1:89:5'' = (Forbidden, store2)"
proof -
  have h1: "file_refs store2 ''u1:89:5'' = Some alice_ref" by code_simp
  have h2: "fr_uploader_id alice_ref \<noteq> au_id bob" by code_simp
  show ?thesis using h1 h2 delete_by_other_owner_forbidden[OF h1 h2] by simp
qed



text \<open>
  C9. When the reference exists and belongs to the caller but its hash has no content
  record, the delete still answers 200: the reference is removed and nothing else changes,
  so no storage call is made and no quota record is touched.
\<close>

theorem delete_without_content_record:
  assumes "file_refs s fileId = Some fileRef"
    and "fr_uploader_id fileRef = au_id owner"
    and "files s (fr_hash fileRef) = None"
  shows "delete_handler s (Valid owner) fileId
           = (Deleted, s\<lparr>file_refs := (file_refs s)(fileId := None)\<rparr>)"
  using assms by (simp add: delete_handler_def Let_def split: option.splits)

theorem delete_without_content_record_witness:
  "file_refs orphan_store ''u1:89:5'' = Some alice_ref
   \<and> files orphan_store ''89'' = None
   \<and> delete_handler orphan_store (Valid alice) ''u1:89:5''
       = (Deleted, orphan_store\<lparr>file_refs := (file_refs orphan_store)(''u1:89:5'' := None)\<rparr>)"
proof -
  have h1: "file_refs orphan_store ''u1:89:5'' = Some alice_ref"
    by (simp add: orphan_store_def)
  have h2: "fr_uploader_id alice_ref = au_id alice"
    by (simp add: alice_ref_def alice_def)
  have h3: "files orphan_store (fr_hash alice_ref) = None"
    by (simp add: orphan_store_def init_state_def)
  have h4: "fr_hash alice_ref = ''89''" by (simp add: alice_ref_def)
  show ?thesis using delete_without_content_record[OF h1 h2 h3] h1 h3 h4 by simp
qed

section \<open>The byte counter of a quota record\<close>

lemma checkRateLimit_nonneg:
  "quota_nonneg s \<Longrightarrow> quota_nonneg (snd (checkRateLimit s u now))"
  by (auto simp: quota_nonneg_def checkRateLimit_def split: option.splits)

lemma upload_one_quotas:
  "quotas (snd (upload_one D user ud qd req file tot s)) = quotas s"
  by (auto simp: upload_one_def warn_mismatch_def store_reference_def storage_upload_def Let_def
      split: option.splits prod.splits)

lemma upload_one_total:
  "upload_one D user ud qd req file tot s = (Inr (tot', r), s') \<Longrightarrow> tot \<le> tot'"
  by (auto simp: upload_one_def warn_mismatch_def store_reference_def storage_upload_def Let_def
      split: option.splits prod.splits if_splits)

lemma upload_loop_quotas:
  "quotas (snd (upload_loop D user ud qd req fs tot acc s)) = quotas s"
proof (induction fs arbitrary: tot acc s)
  case Nil
  show ?case by simp
next
  case (Cons f fs)
  show ?case
  proof (cases "upload_one D user ud qd req f tot s")
    case (Pair res s')
    have q: "quotas s' = quotas s"
      using upload_one_quotas[of D user ud qd req f tot s] Pair by simp
    show ?thesis
    proof (cases res)
      case (Inl e)
      with Pair q show ?thesis by simp
    next
      case (Inr p)
      obtain t r where p: "p = (t, r)" by (cases p)
      with Pair Inr q Cons.IH[of t "acc @ [r]" s'] show ?thesis by simp
    qed
  qed
qed

lemma upload_loop_total:
  "upload_loop D user ud qd req fs tot acc s = (Inr (tot', rs), s') \<Longrightarrow> tot \<le> tot'"
proof (induction fs arbitrary: tot acc s)
  case Nil
  then show ?case by simp
next
  case (Cons f fs)
  show ?case
  proof (cases "upload_one D user ud qd req f tot s")
    case (Pair res s1)
    show ?thesis
    proof (cases res)
      case (Inl e)
      with Pair Cons.prems show ?thesis by simp
    next
      case (Inr p)
      obtain t r where p: "p = (t, r)" by (cases p)
      have "tot \<le> t" using upload_one_total Pair Inr p by blast
      moreover have "t \<le> tot'"
        using Cons.IH[of t "acc @ [r]" s1] Cons.prems Pair Inr p by simp
      ultimately show ?thesis by simp
    qed
  qed
qed

lemma upload_handler_nonneg:
  assumes "quota_nonneg s"
  shows "quota_nonneg (snd (upload_handler D s req))"
proof (cases "up_auth req")
  case NoToken
  with assms show ?thesis by (simp add: upload_handler_def)
next
  case InvalidToken
  with assms show ?thesis by (simp add: upload_handler_def quota_nonneg_def)
next
  case (Valid user)
  obtain ok s1 where rl: "checkRateLimit s (au_id user) (up_now req) = (ok, s1)"
    by (cases "checkRateLimit s (au_id user) (up_now req)")
  have n1: "quota_nonneg s1"
    using checkRateLimit_nonneg[OF assms, of "au_id user" "up_now req"] rl by simp
  obtain res s2 where lp:
    "upload_loop D user (users s1 (au_id user)) (quotas s1 (au_id user)) req (up_files req) 0 [] s1
       = (res, s2)"
    by (cases "upload_loop D user (users s1 (au_id user)) (quotas s1 (au_id user)) req
                 (up_files req) 0 [] s1")
  have q2: "quotas s2 = quotas s1"
    using upload_loop_quotas[of D user "users s1 (au_id user)" "quotas s1 (au_id user)" req
        "up_files req" 0 "[]" s1] lp by simp
  have n2: "quota_nonneg s2" using n1 q2 by (simp add: quota_nonneg_def)
  show ?thesis
  proof (cases res)
    case (Inl e)
    with Valid rl lp n1 n2 show ?thesis
      by (cases e) (auto simp: upload_handler_def quota_nonneg_def)
  next
    case (Inr p)
    obtain t rs where p: "p = (t, rs)" by (cases p)
    have t: "0 \<le> t" using upload_loop_total lp Inr p by blast
    show ?thesis
      using Valid rl lp Inr p n1 n2 q2 t
      by (auto simp: upload_handler_def quota_nonneg_def split: option.splits)
  qed
qed

lemma delete_handler_nonneg:
  "quota_nonneg s \<Longrightarrow> quota_nonneg (snd (delete_handler s cred i))"
  by (auto simp: delete_handler_def quota_nonneg_def storage_remove_def Let_def
      split: credentials.splits option.splits)

lemma handle_nonneg: "quota_nonneg s \<Longrightarrow> quota_nonneg (snd (handle D s r))"
  by (cases r) (simp_all add: handle_def upload_handler_nonneg delete_handler_nonneg)

lemma run_nonneg: "quota_nonneg s \<Longrightarrow> quota_nonneg (run D s rs)"
  unfolding run_def
  by (induction rs arbitrary: s) (simp_all add: handle_nonneg)

text \<open>
  C8. From a store whose quota records have byte counters that are not negative (the
  empty store, or any store with freshly created records, whose counter is 0), every
  sequence of uploads and deletes leaves every counter not negative: an upload adds the
  sizes of the new contents, and a delete takes the larger of 0 and the difference.
\<close>

theorem storage_used_never_negative:
  assumes "quota_nonneg s0" and "quotas (run D s0 rs) u = Some q"
  shows "0 \<le> q_storage_used q"
  using run_nonneg[OF assms(1), of D rs] assms(2) by (simp add: quota_nonneg_def)

text \<open>
  Bob is never charged for the shared picture, and his delete is the one that brings the
  count to 0: the subtraction would give \<open>-4\<close>, the counter stays at 0.
\<close>

theorem storage_used_never_negative_witness:
  "quota_nonneg init_state
   \<and> quotas (run sample_digest init_state share_and_delete) ''u2'' = Some bob_last_quota
   \<and> 0 \<le> q_storage_used bob_last_quota
   \<and> q_storage_used bob_last_quota - 4 < 0"
proof -
  have h1: "quota_nonneg init_state" by (simp add: quota_nonneg_def init_state_def)
  have h2: "quotas (run sample_digest init_state share_and_delete) ''u2'' = Some bob_last_quota"
    by code_simp
  have h3: "q_storage_used bob_last_quota - 4 < 0" by (simp add: bob_last_quota_def)
  show ?thesis using storage_used_never_negative[OF h1 h2] h1 h2 h3 by simp
qed

section \<open>Reference counts and references agree\<close>

lemma refs_to_finite: "finite (dom (file_refs s)) \<Longrightarrow> finite (refs_to s h)"
  by (rule finite_subset[of _ "dom (file_refs s)"]) (auto simp: refs_to_def)

lemma refs_to_upd_subset:
  "file_refs s' = (file_refs s)(i \<mapsto> r) \<Longrightarrow> refs_to s' h \<subseteq> insert i (refs_to s h)"
  by (auto simp: refs_to_def split: if_splits)

lemma refs_to_upd_other:
  "file_refs s' = (file_refs s)(i \<mapsto> r) \<Longrightarrow> fr_hash r \<noteq> h \<Longrightarrow> refs_to s' h \<subseteq> refs_to s h"
  by (auto simp: refs_to_def split: if_splits)

lemma refs_to_del:
  "file_refs s' = (file_refs s)(i := None) \<Longrightarrow> refs_to s' h = refs_to s h - {i}"
  by (auto simp: refs_to_def split: if_splits)

lemma counted_cong:
  "file_refs s' = file_refs s \<Longrightarrow> files s' = files s \<Longrightarrow> counted s' = counted s"
  by (simp add: counted_def refs_to_def stored_count_def)

lemma positive_cong: "files s' = files s \<Longrightarrow> positive s' = positive s"
  by (simp add: positive_def)

lemma store_reference_refs:
  "file_refs (snd (store_reference user ud req file h fd b s))
     = (file_refs s)(au_id user @ '':'' @ h @ '':'' @ show_nat (f_clock file)
          \<mapsto> fst (store_reference user ud req file h fd b s))"
  by (simp add: store_reference_def Let_def)

lemma store_reference_hash:
  "fr_hash (fst (store_reference user ud req file h fd b s)) = h"
  by (simp add: store_reference_def Let_def)

lemma store_reference_files:
  "files (snd (store_reference user ud req file h fd b s))
     = (files s)(h \<mapsto> fd\<lparr>fd_reference_count := fd_reference_count fd + 1\<rparr>)"
  by (simp add: store_reference_def Let_def)

lemma store_reference_counted:
  assumes c: "counted s" and f: "files s h = Some fd"
  shows "counted (snd (store_reference user ud req file h fd b s))"
proof -
  let ?s' = "snd (store_reference user ud req file h fd b s)"
  let ?i = "au_id user @ '':'' @ h @ '':'' @ show_nat (f_clock file)"
  let ?r = "fst (store_reference user ud req file h fd b s)"
  have refs: "file_refs ?s' = (file_refs s)(?i \<mapsto> ?r)" by (rule store_reference_refs)
  have fin: "finite (dom (file_refs s))" using c by (simp add: counted_def)
  have fin': "finite (dom (file_refs ?s'))" using fin refs by simp
  have "int (card (refs_to ?s' k)) \<le> stored_count ?s' k" for k
  proof (cases "k = h")
    case True
    have "card (refs_to ?s' h) \<le> card (insert ?i (refs_to s h))"
      using refs_to_upd_subset[OF refs, of h] refs_to_finite[OF fin, of h]
      by (intro card_mono) auto
    also have "\<dots> \<le> card (refs_to s h) + 1"
      using refs_to_finite[OF fin, of h] by (simp add: card_insert_if)
    finally have "int (card (refs_to ?s' h)) \<le> int (card (refs_to s h)) + 1" by simp
    moreover have "int (card (refs_to s h)) \<le> fd_reference_count fd"
      using c f by (auto simp: counted_def stored_count_def dest: spec[of _ h])
    moreover have "stored_count ?s' h = fd_reference_count fd + 1"
      by (simp add: stored_count_def store_reference_files)
    ultimately show ?thesis using True by simp
  next
    case False
    have "fr_hash ?r \<noteq> k" using False by (simp add: store_reference_hash)
    then have "card (refs_to ?s' k) \<le> card (refs_to s k)"
      using refs_to_upd_other[OF refs, of k] refs_to_finite[OF fin, of k]
      by (intro card_mono) auto
    moreover have "int (card (refs_to s k)) \<le> stored_count s k"
      using c by (simp add: counted_def)
    moreover have "stored_count ?s' k = stored_count s k"
      using False by (simp add: stored_count_def store_reference_files)
    ultimately show ?thesis by simp
  qed
  with fin' show ?thesis by (simp add: counted_def)
qed

lemma store_reference_positive:
  assumes "\<forall>k fd'. k \<noteq> h \<longrightarrow> files s k = Some fd' \<longrightarrow>
             1 \<le> fd_reference_count fd' \<and> fd_storage_path fd' = k"
    and "0 \<le> fd_reference_count fd" and "fd_storage_path fd = h"
  shows "positive (snd (store_reference user ud req file h fd b s))"
  using assms by (auto simp: positive_def store_reference_files)

lemma warn_mismatch_files [simp]: "files (warn_mismatch file s) = files s"
  by (simp add: warn_mismatch_def Let_def)

lemma warn_mismatch_refs [simp]: "file_refs (warn_mismatch file s) = file_refs s"
  by (simp add: warn_mismatch_def Let_def)

lemma storage_upload_files [simp]: "files (snd (storage_upload s p body ct fault)) = files s"
  by (simp add: storage_upload_def Let_def split: option.splits)

lemma storage_upload_refs [simp]:
  "file_refs (snd (storage_upload s p body ct fault)) = file_refs s"
  by (simp add: storage_upload_def Let_def split: option.splits)

lemma upload_one_consistent:
  assumes "consistent s"
  shows "consistent (snd (upload_one D user ud qd req file tot s))"
proof (cases "quota_exceeded qd tot (int (length (f_data file)))")
  case True
  with assms show ?thesis by (simp add: upload_one_def Let_def)
next
  case nq: False
  let ?h = "calculateFileHash D (f_data file)"
  let ?w = "warn_mismatch file s"
  have cw: "counted ?w" and pw: "positive ?w"
    using assms counted_cong[of ?w s] positive_cong[of ?w s] by (simp_all add: consistent_def)
  show ?thesis
  proof (cases "files s ?h")
    case (Some fd)
    have fw: "files ?w ?h = Some fd" using Some by simp
    have ok: "1 \<le> fd_reference_count fd" "fd_storage_path fd = ?h"
      using pw fw by (auto simp: positive_def)
    have res: "snd (upload_one D user ud qd req file tot s)
                 = snd (store_reference user ud req file ?h fd True ?w)"
      using nq Some by (simp add: upload_one_def Let_def split: prod.splits)
    have "counted (snd (store_reference user ud req file ?h fd True ?w))"
      by (rule store_reference_counted[OF cw fw])
    moreover have "positive (snd (store_reference user ud req file ?h fd True ?w))"
      using pw ok by (intro store_reference_positive) (auto simp: positive_def)
    ultimately show ?thesis using res by (simp add: consistent_def)
  next
    case None
    obtain err s2 where su: "storage_upload ?w ?h (f_data file)
        (js_or (f_type file) (getMimeTypeFromBuffer (f_data file))) (f_fault file) = (err, s2)"
      by (cases "storage_upload ?w ?h (f_data file)
        (js_or (f_type file) (getMimeTypeFromBuffer (f_data file))) (f_fault file)")
    have f2: "files s2 = files s" and r2: "file_refs s2 = file_refs s"
      using storage_upload_files[of ?w ?h "f_data file"
          "js_or (f_type file) (getMimeTypeFromBuffer (f_data file))" "f_fault file"]
        storage_upload_refs[of ?w ?h "f_data file"
          "js_or (f_type file) (getMimeTypeFromBuffer (f_data file))" "f_fault file"] su
      by simp_all
    have c2: "counted s2" and p2: "positive s2"
      using assms counted_cong[OF r2 f2] positive_cong[OF f2] by (simp_all add: consistent_def)
    show ?thesis
    proof (cases "case err of None \<Rightarrow> None
                  | Some msg \<Rightarrow> if \<not> str_includes msg ''already exists'' then Some msg else None")
      case (Some msg)
      have "snd (upload_one D user ud qd req file tot s)
              = s2\<lparr>console := console s2 @ [LogError msg]\<rparr>"
        using nq None su Some by (simp add: upload_one_def Let_def)
      moreover have "consistent (s2\<lparr>console := console s2 @ [LogError msg]\<rparr>)"
        using c2 p2 counted_cong[of "s2\<lparr>console := console s2 @ [LogError msg]\<rparr>" s2]
          positive_cong[of "s2\<lparr>console := console s2 @ [LogError msg]\<rparr>" s2]
        by (simp add: consistent_def)
      ultimately show ?thesis by simp
    next
      case noerr: None
      let ?fd = "\<lparr> fd_hash = ?h,
                   fd_mime_type = js_or (f_type file) (getMimeTypeFromBuffer (f_data file)),
                   fd_size = int (length (f_data file)), fd_storage_path = ?h,
                   fd_reference_count = 0, fd_created_at = f_clock file \<rparr>"
      let ?s3 = "s2\<lparr>files := (files s2)(?h \<mapsto> ?fd)\<rparr>"
      have res: "snd (upload_one D user ud qd req file tot s)
                   = snd (store_reference user ud req file ?h ?fd False ?s3)"
        using nq None su noerr by (simp add: upload_one_def Let_def split: prod.splits)
      have sc: "stored_count ?s3 k = stored_count s2 k" for k
        using None f2 by (simp add: stored_count_def)
      have c3: "counted ?s3"
        using c2 sc by (simp add: counted_def refs_to_def)
      have "counted (snd (store_reference user ud req file ?h ?fd False ?s3))"
        by (rule store_reference_counted[OF c3]) simp
      moreover have "positive (snd (store_reference user ud req file ?h ?fd False ?s3))"
        using p2 by (intro store_reference_positive) (auto simp: positive_def)
      ultimately show ?thesis using res by (simp add: consistent_def)
    qed
  qed
qed

lemma upload_loop_consistent:
  "consistent s \<Longrightarrow> consistent (snd (upload_loop D user ud qd req fs tot acc s))"
proof (induction fs arbitrary: tot acc s)
  case Nil
  then show ?case by simp
next
  case (Cons f fs)
  obtain res s1 where one: "upload_one D user ud qd req f tot s = (res, s1)"
    by (cases "upload_one D user ud qd req f tot s")
  have c1: "consistent s1"
    using upload_one_consistent[OF Cons.prems, of D user ud qd req f tot] one by simp
  show ?case
  proof (cases res)
    case (Inl e)
    with one c1 show ?thesis by simp
  next
    case (Inr p)
    obtain t r where p: "p = (t, r)" by (cases p)
    with one Inr Cons.IH[OF c1, of t "acc @ [r]"] show ?thesis by simp
  qed
qed

lemma consistent_cong:
  "file_refs s' = file_refs s \<Longrightarrow> files s' = files s \<Longrightarrow> consistent s' = consistent s"
  using counted_cong[of s' s] positive_cong[of s' s] by (simp add: consistent_def)

lemma checkRateLimit_files [simp]: "files (snd (checkRateLimit s u now)) = files s"
  by (simp add: checkRateLimit_def split: option.splits)

lemma checkRateLimit_refs [simp]: "file_refs (snd (checkRateLimit s u now)) = file_refs s"
  by (simp add: checkRateLimit_def split: option.splits)

text \<open>The handler after the token has resolved, by what the loop returns.\<close>

lemma upload_handler_Valid:
  assumes "up_auth req = Valid user"
    and "checkRateLimit s (au_id user) (up_now req) = (ok, s1)"
    and "upload_loop D user (users s1 (au_id user)) (quotas s1 (au_id user)) req
           (up_files req) 0 [] s1 = (res, s2)"
  shows "upload_handler D s req =
           (if \<not> ok then (RateLimited, s1)
            else if up_files req = [] then (BadRequest, s1)
            else (case res of
                    Inl Quota413 \<Rightarrow> (QuotaExceeded, s2)
                  | Inl (Thrown msg) \<Rightarrow>
                      (ServerError msg, s2\<lparr>console := console s2 @ [LogError msg]\<rparr>)
                  | Inr (t, rs) \<Rightarrow>
                      (Success rs,
                       (case quotas s1 (au_id user) of
                          None \<Rightarrow> s2
                        | Some q \<Rightarrow>
                            s2\<lparr>quotas := (quotas s2)(au_id user \<mapsto>
                                 q\<lparr>q_storage_used := q_storage_used q + t\<rparr>)\<rparr>))))"
  apply (simp only: upload_handler_def)
  apply (simp only: assms(1) credentials.case)
  apply (simp only: assms(2) prod.case)
  apply (simp only: Let_def)
  apply (simp only: assms(3) prod.case)
  done

lemma upload_handler_storage:
  "same_storage (snd (upload_handler D s req)) s
   \<or> (\<exists>user s1. up_auth req = Valid user
         \<and> s1 = snd (checkRateLimit s (au_id user) (up_now req))
         \<and> same_storage (snd (upload_handler D s req))
              (snd (upload_loop D user (users s1 (au_id user)) (quotas s1 (au_id user)) req
                     (up_files req) 0 [] s1)))"
proof (cases "up_auth req")
  case NoToken
  then show ?thesis by (simp add: upload_handler_def same_storage_def)
next
  case InvalidToken
  then show ?thesis by (simp add: upload_handler_def same_storage_def)
next
  case (Valid user)
  obtain ok s1 where rl: "checkRateLimit s (au_id user) (up_now req) = (ok, s1)"
    by (cases "checkRateLimit s (au_id user) (up_now req)")
  have s1: "s1 = snd (checkRateLimit s (au_id user) (up_now req))" using rl by simp
  have ss1: "same_storage s1 s"
    unfolding s1 by (simp add: same_storage_def checkRateLimit_def split: option.splits)
  obtain res s2 where lp:
    "upload_loop D user (users s1 (au_id user)) (quotas s1 (au_id user)) req (up_files req) 0 [] s1
       = (res, s2)"
    by (cases "upload_loop D user (users s1 (au_id user)) (quotas s1 (au_id user)) req
                 (up_files req) 0 [] s1")
  note h = upload_handler_Valid[OF Valid rl lp]
  show ?thesis
  proof (cases "\<not> ok \<or> up_files req = []")
    case True
    then have "snd (upload_handler D s req) = s1" using h by auto
    then show ?thesis using ss1 by simp
  next
    case False
    have "same_storage (snd (upload_handler D s req)) s2"
    proof (cases res)
      case (Inl e)
      then show ?thesis using h False by (cases e) (simp_all add: same_storage_def)
    next
      case (Inr p)
      obtain t rs where p: "p = (t, rs)" by (cases p)
      show ?thesis
      proof (cases "quotas s1 (au_id user)")
        case None
        then show ?thesis using h False Inr p by (simp add: same_storage_def)
      next
        case (Some q)
        then show ?thesis using h False Inr p by (simp add: same_storage_def)
      qed
    qed
    then have "same_storage (snd (upload_handler D s req))
              (snd (upload_loop D user (users s1 (au_id user)) (quotas s1 (au_id user)) req
                     (up_files req) 0 [] s1))"
      using lp by simp
    then show ?thesis using Valid s1 by (intro disjI2 exI[of _ user] exI[of _ s1]) simp
  qed
qed

lemma same_storage_consistent: "same_storage a b \<Longrightarrow> consistent a = consistent b"
  using consistent_cong[of a b] by (simp add: same_storage_def)

lemma upload_handler_consistent:
  assumes "consistent s"
  shows "consistent (snd (upload_handler D s req))"
proof -
  from upload_handler_storage[of D s req] show ?thesis
  proof (elim disjE exE conjE)
    assume "same_storage (snd (upload_handler D s req)) s"
    then show ?thesis using assms same_storage_consistent by blast
  next
    fix user s1
    assume s1: "s1 = snd (checkRateLimit s (au_id user) (up_now req))"
      and ss: "same_storage (snd (upload_handler D s req))
              (snd (upload_loop D user (users s1 (au_id user)) (quotas s1 (au_id user)) req
                     (up_files req) 0 [] s1))"
    have "consistent s1"
      unfolding s1
      using assms consistent_cong[of "snd (checkRateLimit s (au_id user) (up_now req))" s]
      by simp
    then have "consistent (snd (upload_loop D user (users s1 (au_id user))
                 (quotas s1 (au_id user)) req (up_files req) 0 [] s1))"
      by (rule upload_loop_consistent)
    then show ?thesis using ss same_storage_consistent by blast
  qed
qed

text \<open>What a successful delete does to the two collections.\<close>

lemma delete_ok_refs:
  assumes "file_refs s i = Some r" and "fr_uploader_id r = au_id u"
  shows "file_refs (snd (delete_handler s (Valid u) i)) = (file_refs s)(i := None)"
  using assms
  by (auto simp: delete_handler_def storage_remove_def Let_def split: option.splits)

lemma delete_ok_files:
  assumes "file_refs s i = Some r" and "fr_uploader_id r = au_id u"
  shows "files (snd (delete_handler s (Valid u) i))
           = (case files s (fr_hash r) of
                None \<Rightarrow> files s
              | Some fd \<Rightarrow>
                  if fd_reference_count fd - 1 \<le> 0 then (files s)(fr_hash r := None)
                  else (files s)(fr_hash r \<mapsto>
                         fd\<lparr>fd_reference_count := fd_reference_count fd - 1\<rparr>))"
  using assms
  by (auto simp: delete_handler_def storage_remove_def Let_def split: option.splits)

lemma delete_fail_state:
  assumes "fst (delete_handler s cred i) \<noteq> Deleted"
  shows "files (snd (delete_handler s cred i)) = files s
       \<and> file_refs (snd (delete_handler s cred i)) = file_refs s
       \<and> bucket (snd (delete_handler s cred i)) = bucket s
       \<and> storage_calls (snd (delete_handler s cred i)) = storage_calls s
       \<and> quotas (snd (delete_handler s cred i)) = quotas s"
  using assms
  by (auto simp: delete_handler_def Let_def split: credentials.splits option.splits if_splits)

lemma delete_ok_iff:
  "(fst (delete_handler s cred i) = Deleted)
     = (\<exists>u r. cred = Valid u \<and> file_refs s i = Some r \<and> fr_uploader_id r = au_id u)"
  by (auto simp: delete_handler_def Let_def split: credentials.splits option.splits)

lemma delete_handler_consistent:
  assumes "consistent s"
  shows "consistent (snd (delete_handler s cred i))"
proof (cases "fst (delete_handler s cred i) = Deleted")
  case False
  then show ?thesis
    using assms delete_fail_state[of s cred i] consistent_cong[of "snd (delete_handler s cred i)" s]
    by simp
next
  case True
  then obtain u r where cred: "cred = Valid u" and r: "file_refs s i = Some r"
    and own: "fr_uploader_id r = au_id u"
    using delete_ok_iff by blast
  let ?s' = "snd (delete_handler s (Valid u) i)"
  let ?h = "fr_hash r"
  have refs: "file_refs ?s' = (file_refs s)(i := None)" by (rule delete_ok_refs[OF r own])
  note fl = delete_ok_files[OF r own]
  have c: "counted s" and p: "positive s" using assms by (simp_all add: consistent_def)
  have fin: "finite (dom (file_refs s))" using c by (simp add: counted_def)
  have mem: "i \<in> refs_to s ?h" using r by (simp add: refs_to_def)
  have cnt: "int (card (refs_to s k)) \<le> stored_count s k" for k
    using c by (simp add: counted_def)
  have one: "1 \<le> card (refs_to s ?h)"
    using mem refs_to_finite[OF fin, of ?h] card_gt_0_iff[of "refs_to s ?h"] by auto
  have "int (card (refs_to ?s' k)) \<le> stored_count ?s' k" for k
  proof (cases "k = ?h")
    case False
    have "card (refs_to ?s' k) \<le> card (refs_to s k)"
      using refs_to_del[OF refs, of k] refs_to_finite[OF fin, of k]
      by (intro card_mono) auto
    moreover have "stored_count ?s' k = stored_count s k"
      using False fl by (simp add: stored_count_def split: option.splits)
    ultimately show ?thesis using cnt[of k] by simp
  next
    case True
    have "card (refs_to ?s' ?h) = card (refs_to s ?h) - 1"
      using refs_to_del[OF refs, of ?h] mem refs_to_finite[OF fin, of ?h] by simp
    then have eq: "int (card (refs_to ?s' ?h)) = int (card (refs_to s ?h)) - 1"
      using one by simp
    show ?thesis
    proof (cases "files s ?h")
      case None
      then have "stored_count s ?h = 0" by (simp add: stored_count_def)
      then show ?thesis using cnt[of ?h] one by simp
    next
      case (Some fd)
      have sc: "stored_count s ?h = fd_reference_count fd"
        using Some by (simp add: stored_count_def)
      show ?thesis
      proof (cases "fd_reference_count fd - 1 \<le> 0")
        case zero: True
        then have "files ?s' ?h = None" using fl Some by simp
        then have "stored_count ?s' ?h = 0" by (simp add: stored_count_def)
        then show ?thesis using eq cnt[of ?h] sc zero True by simp
      next
        case more: False
        then have "files ?s' ?h = Some (fd\<lparr>fd_reference_count := fd_reference_count fd - 1\<rparr>)"
          using fl Some by simp
        then have "stored_count ?s' ?h = fd_reference_count fd - 1"
          by (simp add: stored_count_def)
        then show ?thesis using eq cnt[of ?h] sc True by simp
      qed
    qed
  qed
  then have "counted ?s'" using fin refs by (simp add: counted_def)
  moreover have "positive ?s'"
    unfolding positive_def
  proof (intro allI impI)
    fix k fd'
    assume a: "files ?s' k = Some fd'"
    show "1 \<le> fd_reference_count fd' \<and> fd_storage_path fd' = k"
    proof (cases "k = ?h")
      case False
      then have "files s k = Some fd'" using a fl by (simp split: option.splits if_splits)
      then show ?thesis using p by (simp add: positive_def)
    next
      case True
      show ?thesis
      proof (cases "files s ?h")
        case None
        then have "files s k = Some fd'" using a fl by simp
        then show ?thesis using p by (simp add: positive_def)
      next
        case (Some fd)
        have pf: "1 \<le> fd_reference_count fd \<and> fd_storage_path fd = ?h"
          using p Some by (simp add: positive_def)
        show ?thesis using a fl Some True pf by (simp split: if_splits) auto
      qed
    qed
  qed
  ultimately show ?thesis using cred by (simp add: consistent_def)
qed

lemma init_consistent: "consistent init_state"
  by (simp add: consistent_def counted_def positive_def init_state_def refs_to_def
      stored_count_def)

lemma handle_consistent: "consistent s \<Longrightarrow> consistent (snd (handle D s r))"
  by (cases r) (simp_all add: handle_def upload_handler_consistent delete_handler_consistent)

lemma run_consistent: "consistent s \<Longrightarrow> consistent (run D s rs)"
  unfolding run_def
  by (induction rs arbitrary: s) (simp_all add: handle_consistent)

section \<open>Reclaiming content\<close>

lemma upload_one_calls:
  "\<exists>cs. storage_calls (snd (upload_one D user ud qd req file tot s))
          = storage_calls s @ map UploadCall cs"
proof -
  let ?h = "calculateFileHash D (f_data file)"
  have none: "storage_calls s = storage_calls s @ map UploadCall []" by simp
  have one: "storage_calls s @ [UploadCall ?h] = storage_calls s @ map UploadCall [?h]" by simp
  have "storage_calls (snd (upload_one D user ud qd req file tot s)) = storage_calls s
      \<or> storage_calls (snd (upload_one D user ud qd req file tot s))
           = storage_calls s @ [UploadCall ?h]"
    by (auto simp: upload_one_def warn_mismatch_def store_reference_def storage_upload_def Let_def
        split: option.splits prod.splits)
  then show ?thesis using none one by metis
qed

lemma upload_one_keeps:
  "files s h \<noteq> None \<Longrightarrow> files (snd (upload_one D user ud qd req file tot s)) h \<noteq> None"
  by (auto simp: upload_one_def warn_mismatch_def store_reference_def storage_upload_def Let_def
      split: option.splits prod.splits)

lemma upload_loop_calls:
  "\<exists>cs. storage_calls (snd (upload_loop D user ud qd req fs tot acc s))
          = storage_calls s @ map UploadCall cs"
proof (induction fs arbitrary: tot acc s)
  case Nil
  show ?case by (intro exI[of _ "[]"]) simp
next
  case (Cons f fs)
  obtain res s1 where one: "upload_one D user ud qd req f tot s = (res, s1)"
    by (cases "upload_one D user ud qd req f tot s")
  obtain cs where cs: "storage_calls s1 = storage_calls s @ map UploadCall cs"
    using upload_one_calls[of D user ud qd req f tot s] one by auto
  show ?case
  proof (cases res)
    case (Inl e)
    with one cs show ?thesis by auto
  next
    case (Inr p)
    obtain t r where p: "p = (t, r)" by (cases p)
    obtain ds where ds: "storage_calls (snd (upload_loop D user ud qd req fs t (acc @ [r]) s1))
          = storage_calls s1 @ map UploadCall ds"
      using Cons.IH[of t "acc @ [r]" s1] ..
    have "storage_calls (snd (upload_loop D user ud qd req (f # fs) tot acc s))
            = storage_calls s @ map UploadCall (cs @ ds)"
      using one Inr p cs ds by simp
    then show ?thesis by blast
  qed
qed

lemma upload_loop_keeps:
  "files s h \<noteq> None \<Longrightarrow> files (snd (upload_loop D user ud qd req fs tot acc s)) h \<noteq> None"
proof (induction fs arbitrary: tot acc s)
  case Nil
  then show ?case by simp
next
  case (Cons f fs)
  obtain res s1 where one: "upload_one D user ud qd req f tot s = (res, s1)"
    by (cases "upload_one D user ud qd req f tot s")
  have k: "files s1 h \<noteq> None"
    using upload_one_keeps[OF Cons.prems, of D user ud qd req f tot] one by simp
  show ?case
  proof (cases res)
    case (Inl e)
    with one k show ?thesis by simp
  next
    case (Inr p)
    obtain t r where p: "p = (t, r)" by (cases p)
    with one Inr Cons.IH[OF k, of t "acc @ [r]"] show ?thesis by simp
  qed
qed

lemma checkRateLimit_storage: "same_storage (snd (checkRateLimit s u now)) s"
  by (simp add: same_storage_def checkRateLimit_def split: option.splits)

lemma upload_handler_keeps:
  "(\<exists>cs. storage_calls (snd (upload_handler D s req)) = storage_calls s @ map UploadCall cs)
   \<and> (files s h \<noteq> None \<longrightarrow> files (snd (upload_handler D s req)) h \<noteq> None)"
proof -
  from upload_handler_storage[of D s req] show ?thesis
  proof (elim disjE exE conjE)
    assume ss: "same_storage (snd (upload_handler D s req)) s"
    have "storage_calls (snd (upload_handler D s req)) = storage_calls s @ map UploadCall []"
      using ss by (simp add: same_storage_def)
    then have "\<exists>cs. storage_calls (snd (upload_handler D s req))
                 = storage_calls s @ map UploadCall cs" ..
    moreover have "files (snd (upload_handler D s req)) = files s"
      using ss by (simp add: same_storage_def)
    ultimately show ?thesis by simp
  next
    fix user s1
    assume s1: "s1 = snd (checkRateLimit s (au_id user) (up_now req))"
      and ss: "same_storage (snd (upload_handler D s req))
              (snd (upload_loop D user (users s1 (au_id user)) (quotas s1 (au_id user)) req
                     (up_files req) 0 [] s1))"
    let ?l = "snd (upload_loop D user (users s1 (au_id user)) (quotas s1 (au_id user)) req
                     (up_files req) 0 [] s1)"
    have ss1: "same_storage s1 s" unfolding s1 by (rule checkRateLimit_storage)
    obtain cs where "storage_calls ?l = storage_calls s1 @ map UploadCall cs"
      using upload_loop_calls[of D user "users s1 (au_id user)" "quotas s1 (au_id user)" req
          "up_files req" 0 "[]" s1] ..
    then have "storage_calls (snd (upload_handler D s req)) = storage_calls s @ map UploadCall cs"
      using ss ss1 by (simp add: same_storage_def)
    then have a: "\<exists>cs. storage_calls (snd (upload_handler D s req))
                 = storage_calls s @ map UploadCall cs" ..
    have "files s1 h \<noteq> None \<longrightarrow> files ?l h \<noteq> None"
      using upload_loop_keeps[of s1 h D user "users s1 (au_id user)" "quotas s1 (au_id user)" req
          "up_files req" 0 "[]"] by (rule impI)
    then have b: "files s h \<noteq> None \<longrightarrow> files (snd (upload_handler D s req)) h \<noteq> None"
      using ss ss1 by (simp add: same_storage_def)
    from a b show ?thesis ..
  qed
qed

lemma delete_ok_storage:
  assumes "file_refs s i = Some r" and "fr_uploader_id r = au_id u"
  shows "storage_calls (snd (delete_handler s (Valid u) i))
           = (case files s (fr_hash r) of
                None \<Rightarrow> storage_calls s
              | Some fd \<Rightarrow>
                  if fd_reference_count fd - 1 \<le> 0
                  then storage_calls s @ [RemoveCall (fd_storage_path fd)]
                  else storage_calls s)"
    and "bucket (snd (delete_handler s (Valid u) i))
           = (case files s (fr_hash r) of
                None \<Rightarrow> bucket s
              | Some fd \<Rightarrow>
                  if fd_reference_count fd - 1 \<le> 0
                  then (bucket s)(fd_storage_path fd := None)
                  else bucket s)"
    and "quotas (snd (delete_handler s (Valid u) i))
           = (case files s (fr_hash r) of
                None \<Rightarrow> quotas s
              | Some fd \<Rightarrow>
                  if fd_reference_count fd - 1 \<le> 0
                  then (case quotas s (au_id u) of
                          None \<Rightarrow> quotas s
                        | Some q \<Rightarrow> (quotas s)(au_id u \<mapsto>
                            q\<lparr>q_storage_used := max 0 (q_storage_used q - fr_size r)\<rparr>))
                  else quotas s)"
  using assms
  by (auto simp: delete_handler_def storage_remove_def Let_def split: option.splits)

lemma counted_zero_empty:
  assumes "counted s" and "files s h = None"
  shows "refs_to s h = {}"
proof -
  have "int (card (refs_to s h)) \<le> 0"
    using assms by (auto simp: counted_def stored_count_def dest: spec[of _ h])
  moreover have "finite (refs_to s h)"
    using assms(1) refs_to_finite by (simp add: counted_def)
  ultimately show ?thesis by simp
qed

lemma new_calls_same [simp]: "storage_calls s' = storage_calls s \<Longrightarrow> new_calls s s' = []"
  by (simp add: new_calls_def)

lemma new_calls_app [simp]: "storage_calls s' = storage_calls s @ cs \<Longrightarrow> new_calls s s' = cs"
  by (simp add: new_calls_def)

lemma delete_reclaims:
  assumes cons: "consistent s" and del: "delete_handler s cred i = (resp, s')"
  shows "(RemoveCall h \<in> set (new_calls s s')) = count_reaches_zero s (Delete cred i) resp h
       \<and> ((files s h \<noteq> None \<and> files s' h = None) = count_reaches_zero s (Delete cred i) resp h)
       \<and> (count_reaches_zero s (Delete cred i) resp h \<longrightarrow> bucket s' h = None \<and> refs_to s' h = {})"
proof (cases "resp = Deleted")
  case False
  then have "fst (delete_handler s cred i) \<noteq> Deleted" using del by simp
  from delete_fail_state[OF this] del False show ?thesis
    by (auto simp: count_reaches_zero_def)
next
  case True
  then have "fst (delete_handler s cred i) = Deleted" using del by simp
  then obtain u r where cred: "cred = Valid u" and r: "file_refs s i = Some r"
    and own: "fr_uploader_id r = au_id u"
    using delete_ok_iff by blast
  have s': "s' = snd (delete_handler s (Valid u) i)" using del cred by simp
  note fl = delete_ok_files[OF r own] and st = delete_ok_storage[OF r own]
  have cons': "consistent s'"
    using delete_handler_consistent[OF cons, of cred i] del by simp
  show ?thesis
  proof (cases "files s (fr_hash r)")
    case None
    have "files s' = files s" "storage_calls s' = storage_calls s"
      using fl st None s' by simp_all
    then show ?thesis using None r True
      by (auto simp: count_reaches_zero_def split: option.splits)
  next
    case (Some fd)
    have pf: "1 \<le> fd_reference_count fd" "fd_storage_path fd = fr_hash r"
      using cons Some by (auto simp: consistent_def positive_def)
    show ?thesis
    proof (cases "fd_reference_count fd - 1 \<le> 0")
      case more: False
      have "files s' = (files s)(fr_hash r \<mapsto> fd\<lparr>fd_reference_count := fd_reference_count fd - 1\<rparr>)"
        "storage_calls s' = storage_calls s"
        using fl st Some more s' by simp_all
      then show ?thesis using Some r True more
        by (auto simp: count_reaches_zero_def split: option.splits)
    next
      case zero: True
      have f': "files s' = (files s)(fr_hash r := None)"
        and c': "storage_calls s' = storage_calls s @ [RemoveCall (fr_hash r)]"
        and b': "bucket s' = (bucket s)(fr_hash r := None)"
        using fl st Some zero s' pf by simp_all
      have z: "fd_reference_count fd - 1 = 0" using zero pf by simp
      have e: "refs_to s' (fr_hash r) = {}"
        using counted_zero_empty[of s' "fr_hash r"] cons' f' by (simp add: consistent_def)
      show ?thesis
      proof (cases "h = fr_hash r")
        case same: True
        then show ?thesis using Some r True z f' c' b' e
          by (simp add: count_reaches_zero_def)
      next
        case other: False
        then show ?thesis using r True f' c'
          by (auto simp: count_reaches_zero_def)
      qed
    qed
  qed
qed

lemma upload_never_reclaims:
  assumes "upload_handler D s req = (resp, s')"
  shows "(RemoveCall h \<in> set (new_calls s s')) = count_reaches_zero s (Upload req) resp h
       \<and> ((files s h \<noteq> None \<and> files s' h = None) = count_reaches_zero s (Upload req) resp h)
       \<and> (count_reaches_zero s (Upload req) resp h \<longrightarrow> bucket s' h = None \<and> refs_to s' h = {})"
proof -
  have s': "s' = snd (upload_handler D s req)" using assms by simp
  obtain cs where "storage_calls s' = storage_calls s @ map UploadCall cs"
    using upload_handler_keeps[of D s req h] s' by blast
  then have "new_calls s s' = map UploadCall cs" by simp
  then have "RemoveCall h \<notin> set (new_calls s s')" by auto
  moreover have "files s h \<noteq> None \<longrightarrow> files s' h \<noteq> None"
    using upload_handler_keeps[of D s req h] s' by blast
  ultimately show ?thesis by (auto simp: count_reaches_zero_def)
qed

text \<open>
  C5. In every store that a sequence of requests can produce from the empty store, and for
  every next request and every content hash \<open>h\<close>: the handler asks the storage service to
  remove \<open>h\<close> exactly when the request is a successful delete of a reference to \<open>h\<close> whose
  decrement brings the stored count to exactly 0; the content record of \<open>h\<close> disappears in
  exactly the same case; and then the object is gone from the bucket and no reference in
  the new store points at \<open>h\<close>. An upload never removes anything.
\<close>

theorem content_deleted_iff_count_reaches_zero:
  assumes "s = run D init_state rs" and "handle D s r = (resp, s')"
  shows "(RemoveCall h \<in> set (new_calls s s')) = count_reaches_zero s r resp h
       \<and> ((files s h \<noteq> None \<and> files s' h = None) = count_reaches_zero s r resp h)
       \<and> (count_reaches_zero s r resp h \<longrightarrow> bucket s' h = None \<and> refs_to s' h = {})"
proof (cases r)
  case (Upload req)
  then show ?thesis using upload_never_reclaims[of D s req resp s' h] assms(2)
    by (simp add: handle_def)
next
  case (Delete cred i)
  have "consistent s" unfolding assms(1) by (rule run_consistent[OF init_consistent])
  then show ?thesis using delete_reclaims[of s cred i resp s' h] assms(2) Delete
    by (simp add: handle_def)
qed

text \<open>Alice deletes the only reference to her picture in \<open>store2\<close>.\<close>

theorem content_deleted_iff_count_reaches_zero_witness:
  "fst (handle sample_digest store2 (Delete (Valid alice) ''u1:89:5'')) = Deleted
   \<and> count_reaches_zero store2 (Delete (Valid alice) ''u1:89:5'') Deleted ''89''
   \<and> RemoveCall ''89'' \<in> set (new_calls store2 after_delete)
   \<and> files store2 ''89'' \<noteq> None \<and> files after_delete ''89'' = None
   \<and> bucket after_delete ''89'' = None \<and> refs_to after_delete ''89'' = {}"
proof -
  have f: "fst (handle sample_digest store2 (Delete (Valid alice) ''u1:89:5'')) = Deleted"
    by code_simp
  then have h: "handle sample_digest store2 (Delete (Valid alice) ''u1:89:5'')
                  = (Deleted, after_delete)"
    by (simp add: after_delete_def handle_def prod_eq_iff)
  have z: "count_reaches_zero store2 (Delete (Valid alice) ''u1:89:5'') Deleted ''89''"
    by code_simp
  show ?thesis
    using content_deleted_iff_count_reaches_zero[OF store2_def h, of "''89''"] f z by simp
qed

lemma delete_with_other_reference:
  assumes "consistent s"
    and "file_refs s id1 = Some ref1" and "fr_uploader_id ref1 = au_id owner1"
    and "file_refs s id2 = Some ref2" and "id2 \<noteq> id1" and "fr_hash ref2 = fr_hash ref1"
  shows "\<exists>fd. files s (fr_hash ref1) = Some fd \<and> 2 \<le> fd_reference_count fd
           \<and> delete_handler s (Valid owner1) id1
               = (Deleted, s\<lparr>files := (files s)(fr_hash ref1 \<mapsto>
                                fd\<lparr>fd_reference_count := fd_reference_count fd - 1\<rparr>),
                             file_refs := (file_refs s)(id1 := None)\<rparr>)"
proof -
  have c: "counted s" using assms(1) by (simp add: consistent_def)
  have fin: "finite (refs_to s (fr_hash ref1))"
    using c refs_to_finite by (simp add: counted_def)
  have "{id1, id2} \<subseteq> refs_to s (fr_hash ref1)"
    using assms by (simp add: refs_to_def)
  then have "card {id1, id2} \<le> card (refs_to s (fr_hash ref1))"
    using fin by (rule card_mono[rotated])
  then have two: "2 \<le> int (card (refs_to s (fr_hash ref1)))" using assms(5) by simp
  have le: "int (card (refs_to s (fr_hash ref1))) \<le> stored_count s (fr_hash ref1)"
    using c by (simp add: counted_def)
  obtain fd where fd: "files s (fr_hash ref1) = Some fd"
    using two le by (cases "files s (fr_hash ref1)") (auto simp: stored_count_def)
  have rc: "2 \<le> fd_reference_count fd" using two le fd by (simp add: stored_count_def)
  have "delete_handler s (Valid owner1) id1
               = (Deleted, s\<lparr>files := (files s)(fr_hash ref1 \<mapsto>
                                fd\<lparr>fd_reference_count := fd_reference_count fd - 1\<rparr>),
                             file_refs := (file_refs s)(id1 := None)\<rparr>)"
    using assms(2,3) fd rc by (simp add: delete_handler_def Let_def split: option.splits)
  with fd rc show ?thesis by blast
qed

text \<open>
  C3 (as amended). In every store reachable from the empty one: when an owner deletes
  their reference while another owner still holds a reference to the same hash, the
  content record is there with a count of at least 2, the delete answers 200, the count
  drops by one and so stays at least 1, the owner's reference is removed, and nothing
  else changes: the content stays in the bucket, no storage call is made, and every
  quota record, the deleting owner's included, is as before.
\<close>

theorem delete_shared_content:
  assumes "s = run D init_state rs"
    and "file_refs s id1 = Some ref1" and "fr_uploader_id ref1 = au_id owner1"
    and "file_refs s id2 = Some ref2" and "fr_uploader_id ref2 \<noteq> au_id owner1"
    and "fr_hash ref2 = fr_hash ref1"
  shows "\<exists>fd. files s (fr_hash ref1) = Some fd \<and> 2 \<le> fd_reference_count fd
           \<and> delete_handler s (Valid owner1) id1
               = (Deleted, s\<lparr>files := (files s)(fr_hash ref1 \<mapsto>
                                fd\<lparr>fd_reference_count := fd_reference_count fd - 1\<rparr>),
                             file_refs := (file_refs s)(id1 := None)\<rparr>)"
proof -
  have cons: "consistent s" unfolding assms(1) by (rule run_consistent[OF init_consistent])
  have ne: "id2 \<noteq> id1" using assms(2-5) by auto
  show ?thesis by (rule delete_with_other_reference[OF cons assms(2,3,4) ne assms(6)])
qed

text \<open>Alice deletes her reference in \<open>store3\<close>, where Bob holds one to the same bytes.\<close>

theorem delete_shared_content_witness:
  "file_refs store3 ''u1:89:5'' = Some alice_ref
   \<and> file_refs store3 ''u2:89:7'' = Some bob_ref
   \<and> fr_uploader_id bob_ref \<noteq> au_id alice
   \<and> fst (delete_handler store3 (Valid alice) ''u1:89:5'') = Deleted
   \<and> map_option fd_reference_count (files store3 ''89'') = Some 2
   \<and> map_option fd_reference_count
        (files (snd (delete_handler store3 (Valid alice) ''u1:89:5'')) ''89'') = Some 1
   \<and> quotas (snd (delete_handler store3 (Valid alice) ''u1:89:5'')) = quotas store3
   \<and> bucket (snd (delete_handler store3 (Valid alice) ''u1:89:5'')) = bucket store3
   \<and> storage_calls (snd (delete_handler store3 (Valid alice) ''u1:89:5'')) = storage_calls store3"
proof -
  have h1: "file_refs store3 ''u1:89:5'' = Some alice_ref" by code_simp
  have h2: "fr_uploader_id alice_ref = au_id alice" by code_simp
  have h3: "file_refs store3 ''u2:89:7'' = Some bob_ref" by code_simp
  have h4: "fr_uploader_id bob_ref \<noteq> au_id alice" by code_simp
  have h5: "fr_hash bob_ref = fr_hash alice_ref" by code_simp
  have h6: "fr_hash alice_ref = ''89''" by code_simp
  have h7: "map_option fd_reference_count (files store3 ''89'') = Some 2" by code_simp
  from delete_shared_content[OF store3_def h1 h2 h3 h4 h5]
  obtain fd where fd: "files store3 (fr_hash alice_ref) = Some fd"
    and d: "delete_handler store3 (Valid alice) ''u1:89:5''
               = (Deleted, store3\<lparr>files := (files store3)(fr_hash alice_ref \<mapsto>
                                fd\<lparr>fd_reference_count := fd_reference_count fd - 1\<rparr>),
                             file_refs := (file_refs store3)(''u1:89:5'' := None)\<rparr>)"
    by blast
  have "fd_reference_count fd = 2" using fd h6 h7 by simp
  then show ?thesis using h1 h3 h4 h6 h7 d by simp
qed

text \<open>
  The claim as first stated has the deleting owner's byte counter drop by the size of
  the content, and the count drop to 1. In \<open>store3\<close> Alice was charged 4 bytes for the
  picture; after her delete, with Bob's reference still there, her counter is still 4,
  not 0. In \<open>store_twice\<close> Alice and Bob hold one reference each to the picture and the
  count is 3, since Alice's two rounds formed the same id; her delete leaves it at 2.
\<close>

theorem delete_shared_content_counterexample:
  "fst (delete_handler store3 (Valid alice) ''u1:89:5'') = Deleted
   \<and> map_option fr_uploader_id (file_refs store3 ''u1:89:5'') = Some ''u1''
   \<and> map_option fr_hash (file_refs store3 ''u1:89:5'') = Some ''89''
   \<and> map_option fr_uploader_id (file_refs store3 ''u2:89:7'') = Some ''u2''
   \<and> map_option fr_hash (file_refs store3 ''u2:89:7'') = Some ''89''
   \<and> map_option fd_size (files store3 ''89'') = Some 4
   \<and> map_option q_storage_used (quotas store3 ''u1'') = Some 4
   \<and> map_option q_storage_used
        (quotas (snd (delete_handler store3 (Valid alice) ''u1:89:5'')) ''u1'') = Some 4
   \<and> map_option q_storage_used
        (quotas (snd (delete_handler store3 (Valid alice) ''u1:89:5'')) ''u1'') \<noteq> Some (4 - 4)
   \<and> fst (delete_handler store_twice (Valid alice) ''u1:89:5'') = Deleted
   \<and> map_option fr_uploader_id (file_refs store_twice ''u1:89:5'') = Some ''u1''
   \<and> map_option fr_hash (file_refs store_twice ''u1:89:5'') = Some ''89''
   \<and> map_option fr_uploader_id (file_refs store_twice ''u2:89:7'') = Some ''u2''
   \<and> map_option fr_hash (file_refs store_twice ''u2:89:7'') = Some ''89''
   \<and> map_option fd_reference_count (files store_twice ''89'') = Some 3
   \<and> map_option fd_reference_count
        (files (snd (delete_handler store_twice (Valid alice) ''u1:89:5'')) ''89'') = Some 2
   \<and> map_option fd_reference_count
        (files (snd (delete_handler store_twice (Valid alice) ''u1:89:5'')) ''89'') \<noteq> Some 1"
  by code_simp

section \<open>Uploading stored content, and the quota test\<close>

lemma checkRateLimit_quota:
  assumes "checkRateLimit s u now = (True, s1)"
  shows "\<exists>q. quotas s1 u = Some q
           \<and> q_storage_used q = (case quotas s u of None \<Rightarrow> 0 | Some q0 \<Rightarrow> q_storage_used q0)"
  using assms by (auto simp: checkRateLimit_def split: option.splits if_splits)

lemma upload_one_exceeded:
  "quota_exceeded qd tot (int (length (f_data file))) \<Longrightarrow>
   upload_one D user ud qd req file tot s = (Inl Quota413, s)"
  by (simp add: upload_one_def Let_def)

lemma upload_one_duplicate:
  assumes "files s (calculateFileHash D (f_data file)) = Some fd"
    and "\<not> quota_exceeded qd tot (int (length (f_data file)))"
  shows "upload_one D user ud qd req file tot s =
           (Inr (tot, fst (store_reference user ud req file (calculateFileHash D (f_data file))
                             fd True (warn_mismatch file s))),
            snd (store_reference user ud req file (calculateFileHash D (f_data file))
                   fd True (warn_mismatch file s)))"
  using assms by (simp add: upload_one_def Let_def split_beta)

lemma store_reference_frame:
  "bucket (snd (store_reference user ud req file h fd b s)) = bucket s"
  "storage_calls (snd (store_reference user ud req file h fd b s)) = storage_calls s"
  "quotas (snd (store_reference user ud req file h fd b s)) = quotas s"
  "console (snd (store_reference user ud req file h fd b s)) = console s"
  by (simp_all add: store_reference_def Let_def)

lemma store_reference_ref:
  "fr_is_deduplicated (fst (store_reference user ud req file h fd b s)) = b"
  "fr_mime_type (fst (store_reference user ud req file h fd b s)) = fd_mime_type fd"
  "fr_id (fst (store_reference user ud req file h fd b s))
     = au_id user @ '':'' @ h @ '':'' @ show_nat (f_clock file)"
  by (simp_all add: store_reference_def Let_def)

lemma warn_mismatch_frame:
  "bucket (warn_mismatch file s) = bucket s"
  "storage_calls (warn_mismatch file s) = storage_calls s"
  "quotas (warn_mismatch file s) = quotas s"
  by (simp_all add: warn_mismatch_def Let_def)

text \<open>
  C1 (as amended). When an upload of one file whose bytes hash to an existing content
  record succeeds, whoever first stored the content: no storage call is made and the
  bucket is as before; the record's count goes up by one (from 1 to 2 for the second
  owner); one reference is created, marked as deduplicated; and the uploader's byte
  counter is what it was before the request (0 for a record the rate limiter has just
  created). A duplicate is charged nothing.
\<close>

theorem duplicate_upload_charges_nothing:
  assumes auth: "up_auth req = Valid user"
    and one: "up_files req = [file]"
    and dup: "files s (calculateFileHash D (f_data file)) = Some fd"
    and ok: "upload_handler D s req = (Success refs, s')"
  shows "bucket s' = bucket s
       \<and> storage_calls s' = storage_calls s
       \<and> files s' = (files s)(calculateFileHash D (f_data file) \<mapsto>
                       fd\<lparr>fd_reference_count := fd_reference_count fd + 1\<rparr>)
       \<and> map_option q_storage_used (quotas s' (au_id user))
           = Some (case quotas s (au_id user) of None \<Rightarrow> 0 | Some q \<Rightarrow> q_storage_used q)
       \<and> (\<exists>r. refs = [r] \<and> fr_is_deduplicated r \<and> file_refs s' (fr_id r) = Some r)"
proof -
  let ?h = "calculateFileHash D (f_data file)"
  obtain allowed s1 where rl: "checkRateLimit s (au_id user) (up_now req) = (allowed, s1)"
    by (cases "checkRateLimit s (au_id user) (up_now req)")
  obtain res s2 where lp:
    "upload_loop D user (users s1 (au_id user)) (quotas s1 (au_id user)) req (up_files req) 0 [] s1
       = (res, s2)"
    by (cases "upload_loop D user (users s1 (au_id user)) (quotas s1 (au_id user)) req
                 (up_files req) 0 [] s1")
  note h = upload_handler_Valid[OF auth rl lp]
  have al: "allowed" using h ok by (cases allowed) simp_all
  have ss1: "same_storage s1 s"
    using checkRateLimit_storage[of s "au_id user" "up_now req"] rl by simp
  have dup1: "files s1 ?h = Some fd" using dup ss1 by (simp add: same_storage_def)
  obtain q1 where q1: "quotas s1 (au_id user) = Some q1"
    and used: "q_storage_used q1
                 = (case quotas s (au_id user) of None \<Rightarrow> 0 | Some q0 \<Rightarrow> q_storage_used q0)"
    using checkRateLimit_quota[of s "au_id user" "up_now req" s1] rl al by auto
  have room: "\<not> quota_exceeded (Some q1) 0 (int (length (f_data file)))"
  proof
    assume "quota_exceeded (Some q1) 0 (int (length (f_data file)))"
    then have "upload_loop D user (users s1 (au_id user)) (Some q1) req [file] 0 [] s1
                 = (Inl Quota413, s1)"
      by (simp add: upload_one_exceeded)
    then have "res = Inl Quota413" using lp one q1 by simp
    then show False using h ok al one by simp
  qed
  let ?sr = "store_reference user (users s1 (au_id user)) req file ?h fd True
               (warn_mismatch file s1)"
  have w: "files (warn_mismatch file s1) ?h = Some fd" using dup1 by simp
  have "upload_loop D user (users s1 (au_id user)) (Some q1) req [file] 0 [] s1
          = (Inr (0, [fst ?sr]), snd ?sr)"
    using upload_one_duplicate[OF dup1 room, of user "users s1 (au_id user)" req] by simp
  then have res: "res = Inr (0, [fst ?sr])" and s2: "s2 = snd ?sr"
    using lp one q1 by simp_all
  have s': "s' = s2\<lparr>quotas := (quotas s2)(au_id user \<mapsto>
                      q1\<lparr>q_storage_used := q_storage_used q1 + 0\<rparr>)\<rparr>"
    and refs: "refs = [fst ?sr]"
    using h ok al one res q1 by simp_all
  have b: "bucket s' = bucket s"
    using s' s2 ss1 by (simp add: store_reference_frame warn_mismatch_frame same_storage_def)
  have c: "storage_calls s' = storage_calls s"
    using s' s2 ss1 by (simp add: store_reference_frame warn_mismatch_frame same_storage_def)
  have f: "files s' = (files s)(?h \<mapsto> fd\<lparr>fd_reference_count := fd_reference_count fd + 1\<rparr>)"
    using s' s2 ss1 by (simp add: store_reference_files same_storage_def)
  have q: "map_option q_storage_used (quotas s' (au_id user))
           = Some (case quotas s (au_id user) of None \<Rightarrow> 0 | Some q \<Rightarrow> q_storage_used q)"
    using s' used by simp
  have r: "fr_is_deduplicated (fst ?sr) \<and> file_refs s' (fr_id (fst ?sr)) = Some (fst ?sr)"
    using s' s2 by (simp add: store_reference_ref store_reference_refs)
  from b c f q r refs show ?thesis by blast
qed


text \<open>Bob uploads the bytes of Alice's picture.\<close>

theorem duplicate_upload_charges_nothing_witness:
  "files store2 ''89'' = Some png_record
   \<and> fst (upload_handler sample_digest store2 (upload_by bob 7000 [bob_png])) = Success [bob_ref]
   \<and> bucket after_bob_png = bucket store2
   \<and> storage_calls after_bob_png = storage_calls store2
   \<and> map_option fd_reference_count (files after_bob_png ''89'') = Some 2
   \<and> map_option q_storage_used (quotas after_bob_png ''u2'') = Some 5"
proof -
  have h1: "up_auth (upload_by bob 7000 [bob_png]) = Valid bob" by (simp add: upload_by_def)
  have h2: "up_files (upload_by bob 7000 [bob_png]) = [bob_png]" by (simp add: upload_by_def)
  have hh: "calculateFileHash sample_digest (f_data bob_png) = ''89''" by code_simp
  have h3: "files store2 (calculateFileHash sample_digest (f_data bob_png)) = Some png_record"
    unfolding hh by code_simp
  have f: "fst (upload_handler sample_digest store2 (upload_by bob 7000 [bob_png]))
             = Success [bob_ref]"
    by code_simp
  then have h4: "upload_handler sample_digest store2 (upload_by bob 7000 [bob_png])
                   = (Success [bob_ref], after_bob_png)"
    by (simp add: after_bob_png_def prod_eq_iff)
  have q: "map_option q_storage_used (quotas store2 (au_id bob)) = Some 5" by code_simp
  have u: "au_id bob = ''u2''" by (simp add: bob_def)
  have rc: "fd_reference_count png_record = 1" by (simp add: png_record_def)
  show ?thesis
    using duplicate_upload_charges_nothing[OF h1 h2 h3 h4] h3 f q u rc hh
    by (auto split: option.splits)
qed

text \<open>
  The claim as first stated has the second owner's byte counter grow by the size of the
  content. Bob's counter is 5 before he uploads the 4 bytes that Alice has stored, and
  5 after, not 9.
\<close>

theorem duplicate_upload_charges_nothing_counterexample:
  "map_option fr_uploader_id (file_refs store2 ''u1:89:5'') = Some ''u1''
   \<and> map_option fd_reference_count (files store2 ''89'') = Some 1
   \<and> map_option fd_size (files store2 ''89'') = Some 4
   \<and> calculateFileHash sample_digest (f_data bob_png) = ''89''
   \<and> fst (upload_handler sample_digest store2 (upload_by bob 7000 [bob_png])) = Success [bob_ref]
   \<and> map_option fd_reference_count (files after_bob_png ''89'') = Some 2
   \<and> map_option q_storage_used (quotas store2 ''u2'') = Some 5
   \<and> map_option q_storage_used (quotas after_bob_png ''u2'') = Some 5
   \<and> map_option q_storage_used (quotas after_bob_png ''u2'') \<noteq> Some (5 + 4)"
  by code_simp

text \<open>
  C4. The quota test stands at the head of every round of the loop, before the hash is
  looked up, and it counts the size of the file whether or not the content is stored
  already. Bob has 5 of his 8 bytes in use; the picture's 4 bytes are in the store; his
  upload of the same 4 bytes is refused with 413.
\<close>

theorem duplicate_upload_quota_exceeded:
  "files bob_tight_store (calculateFileHash sample_digest (f_data bob_png)) = Some png_record
   \<and> quotas bob_tight_store ''u2'' = Some (tight_quota ''u2'' 5 8)
   \<and> upload_one sample_digest bob None (Some (tight_quota ''u2'' 5 8))
         (upload_by bob 7000 [bob_png]) bob_png 0 bob_tight_store = (Inl Quota413, bob_tight_store)
   \<and> fst (upload_handler sample_digest bob_tight_store (upload_by bob 7000 [bob_png]))
       = QuotaExceeded"
proof -
  have a: "files bob_tight_store (calculateFileHash sample_digest (f_data bob_png))
             = Some png_record" by code_simp
  have b: "quotas bob_tight_store ''u2'' = Some (tight_quota ''u2'' 5 8)"
    by (simp add: bob_tight_store_def)
  have c: "quota_exceeded (Some (tight_quota ''u2'' 5 8)) 0 (int (length (f_data bob_png)))"
    by code_simp
  have d: "fst (upload_handler sample_digest bob_tight_store (upload_by bob 7000 [bob_png]))
             = QuotaExceeded" by code_simp
  from a b upload_one_exceeded[OF c] d show ?thesis by simp
qed

text \<open>
  C2. The 413 response returns from inside the loop. Alice, with a limit of 10 bytes,
  uploads a picture of 4 bytes and a document of 8 in one request: the request is refused
  at the second file, and the content record, the reference and the stored object of the
  first file stay, while her byte counter stays at 0.
\<close>

theorem batch_quota_failure_keeps_earlier_files:
  "fst (upload_handler sample_digest alice_tight_store
          (upload_by alice 5000 [alice_png, alice_pdf])) = QuotaExceeded
   \<and> files alice_tight_store ''89'' = None
   \<and> file_refs alice_tight_store ''u1:89:5'' = None
   \<and> files after_batch ''89'' = Some png_record
   \<and> file_refs after_batch ''u1:89:5'' = Some alice_ref
   \<and> bucket after_batch ''89'' = Some (png_bytes, ''image/png'')
   \<and> storage_calls after_batch = storage_calls alice_tight_store @ [UploadCall ''89'']
   \<and> map_option q_storage_used (quotas alice_tight_store ''u1'') = Some 0
   \<and> map_option q_storage_used (quotas after_batch ''u1'') = Some 0"
  by code_simp

section \<open>Declared and detected content types\<close>

lemma already_exists_message: "str_includes ''The resource already exists'' ''already exists''"
  by (simp add: startsWith_def)

lemma storage_upload_error:
  "fst (storage_upload s p body ct fault)
     = (case fault of
          Some msg \<Rightarrow> Some msg
        | None \<Rightarrow> (case bucket s p of
                     Some obj \<Rightarrow> Some ''The resource already exists''
                   | None \<Rightarrow> None))"
  by (simp add: storage_upload_def Let_def split: option.splits)

lemma storage_upload_console [simp]:
  "console (snd (storage_upload s p body ct fault)) = console s"
  by (simp add: storage_upload_def Let_def split: option.splits)

lemma upload_one_outcome:
  "map_sum id fst (fst (upload_one D user ud qd req file tot s))
     = round_outcome D qd file tot (dom (files s))"
proof (cases "quota_exceeded qd tot (int (length (f_data file)))")
  case True
  then show ?thesis by (simp add: upload_one_exceeded round_outcome_def)
next
  case nq: False
  show ?thesis
  proof (cases "files s (calculateFileHash D (f_data file))")
    case (Some fd)
    then have "calculateFileHash D (f_data file) \<in> dom (files s)" by auto
    then show ?thesis
      using nq upload_one_duplicate[OF Some nq, of user ud req] by (simp add: round_outcome_def)
  next
    case None
    then have "calculateFileHash D (f_data file) \<notin> dom (files s)" by auto
    then show ?thesis
      using nq None already_exists_message
      by (simp add: upload_one_def Let_def split_beta round_outcome_def storage_upload_error
          split: option.splits)
  qed
qed

lemma upload_one_known:
  "fst (upload_one D user ud qd req file tot s) = Inr p \<Longrightarrow>
   dom (files (snd (upload_one D user ud qd req file tot s)))
     = insert (calculateFileHash D (f_data file)) (dom (files s))"
proof (cases "quota_exceeded qd tot (int (length (f_data file)))")
  case True
  then show "fst (upload_one D user ud qd req file tot s) = Inr p \<Longrightarrow> ?thesis"
    by (simp add: upload_one_exceeded)
next
  case nq: False
  show "fst (upload_one D user ud qd req file tot s) = Inr p \<Longrightarrow> ?thesis"
  proof (cases "files s (calculateFileHash D (f_data file))")
    case (Some fd)
    show ?thesis
      using upload_one_duplicate[OF Some nq, of user ud req] by (simp add: store_reference_files)
  next
    case None
    assume "fst (upload_one D user ud qd req file tot s) = Inr p"
    then show ?thesis
      using nq None
      by (simp add: upload_one_def Let_def split_beta store_reference_files
          split: option.splits if_splits)
  qed
qed

lemma upload_loop_outcome:
  "map_sum id fst (fst (upload_loop D user ud qd req fs tot acc s))
     = loop_outcome D qd fs tot (dom (files s))"
proof (induction fs arbitrary: tot acc s)
  case Nil
  show ?case by simp
next
  case (Cons f fs)
  obtain res s1 where one: "upload_one D user ud qd req f tot s = (res, s1)"
    by (cases "upload_one D user ud qd req f tot s")
  have ro: "round_outcome D qd f tot (dom (files s)) = map_sum id fst res"
    using upload_one_outcome[of D user ud qd req f tot s] one by simp
  show ?case
  proof (cases res)
    case (Inl e)
    then show ?thesis using one ro by simp
  next
    case (Inr p)
    obtain t r where p: "p = (t, r)" by (cases p)
    have k: "dom (files s1) = insert (calculateFileHash D (f_data f)) (dom (files s))"
      using upload_one_known[of D user ud qd req f tot s p] one Inr by simp
    have "round_outcome D qd f tot (dom (files s)) = Inr t" using ro Inr p by simp
    then show ?thesis
      using one Inr p k Cons.IH[of t "acc @ [r]" s1] by simp
  qed
qed

lemma round_outcome_retype [simp]:
  "round_outcome D qd (file\<lparr>f_type := ty\<rparr>) tot known = round_outcome D qd file tot known"
  by (auto simp: round_outcome_def split: option.splits)

lemma loop_outcome_retype:
  "loop_outcome D qd (retype tys fs) tot known = loop_outcome D qd fs tot known"
proof (induction tys fs arbitrary: tot known rule: retype.induct)
  case (1 ty tys fl rest)
  then show ?case by (simp split: sum.splits)
qed simp_all

lemma retype_empty [simp]: "(retype tys fs = []) = (fs = [])"
  by (induction tys fs rule: retype.induct) simp_all

text \<open>The status of an upload, read off the control flow alone.\<close>

lemma upload_status:
  "response_status (fst (upload_handler D s req))
     = (case up_auth req of
          NoToken \<Rightarrow> 401
        | InvalidToken \<Rightarrow> 500
        | Valid user \<Rightarrow>
            (case checkRateLimit s (au_id user) (up_now req) of
               (allowed, s1) \<Rightarrow>
                 if \<not> allowed then 429
                 else if up_files req = [] then 400
                 else (case loop_outcome D (quotas s1 (au_id user)) (up_files req) 0
                              (dom (files s1)) of
                         Inl Quota413 \<Rightarrow> 413
                       | Inl (Thrown msg) \<Rightarrow> 500
                       | Inr t \<Rightarrow> 200)))"
proof (cases "up_auth req")
  case NoToken
  then show ?thesis by (simp add: upload_handler_def)
next
  case InvalidToken
  then show ?thesis by (simp add: upload_handler_def)
next
  case (Valid user)
  obtain allowed s1 where rl: "checkRateLimit s (au_id user) (up_now req) = (allowed, s1)"
    by (cases "checkRateLimit s (au_id user) (up_now req)")
  obtain res s2 where lp:
    "upload_loop D user (users s1 (au_id user)) (quotas s1 (au_id user)) req (up_files req) 0 [] s1
       = (res, s2)"
    by (cases "upload_loop D user (users s1 (au_id user)) (quotas s1 (au_id user)) req
                 (up_files req) 0 [] s1")
  have lo: "loop_outcome D (quotas s1 (au_id user)) (up_files req) 0 (dom (files s1))
              = map_sum id fst res"
    using upload_loop_outcome[of D user "users s1 (au_id user)" "quotas s1 (au_id user)" req
        "up_files req" 0 "[]" s1] lp by simp
  note h = upload_handler_Valid[OF Valid rl lp]
  show ?thesis
  proof (cases res)
    case (Inl e)
    then show ?thesis using h Valid rl lo by (cases e) simp_all
  next
    case (Inr p)
    obtain t rs where p: "p = (t, rs)" by (cases p)
    then show ?thesis using h Valid rl lo Inr by simp
  qed
qed

lemma upload_status_retype:
  "response_status (fst (upload_handler D s (req\<lparr>up_files := retype tys (up_files req)\<rparr>)))
     = response_status (fst (upload_handler D s req))"
  by (simp add: upload_status loop_outcome_retype split: credentials.splits prod.splits)

lemma upload_one_console:
  assumes "upload_one D user ud qd req file tot s = (Inr (tot', ref), s')"
  shows "console s' = console (warn_mismatch file s)"
proof (cases "quota_exceeded qd tot (int (length (f_data file)))")
  case True
  then show ?thesis using assms by (simp add: upload_one_exceeded)
next
  case nq: False
  show ?thesis
  proof (cases "files s (calculateFileHash D (f_data file))")
    case (Some fd)
    show ?thesis
      using upload_one_duplicate[OF Some nq, of user ud req] assms
      by (auto simp: store_reference_frame)
  next
    case None
    show ?thesis
      using nq None assms
      by (auto simp: upload_one_def Let_def split_beta store_reference_frame
          split: option.splits if_splits)
  qed
qed

lemma upload_one_mime:
  assumes "upload_one D user ud qd req file tot s = (Inr (tot', ref), s')"
  shows "case files s (calculateFileHash D (f_data file)) of
           None \<Rightarrow>
             fr_mime_type ref = js_or (f_type file) (getMimeTypeFromBuffer (f_data file))
             \<and> map_option fd_mime_type (files s' (calculateFileHash D (f_data file)))
                 = Some (js_or (f_type file) (getMimeTypeFromBuffer (f_data file)))
         | Some fd \<Rightarrow>
             fr_mime_type ref = fd_mime_type fd
             \<and> map_option fd_mime_type (files s' (calculateFileHash D (f_data file)))
                 = Some (fd_mime_type fd)"
proof (cases "quota_exceeded qd tot (int (length (f_data file)))")
  case True
  then show ?thesis using assms by (simp add: upload_one_exceeded)
next
  case nq: False
  show ?thesis
  proof (cases "files s (calculateFileHash D (f_data file))")
    case (Some fd)
    show ?thesis
      using upload_one_duplicate[OF Some nq, of user ud req] assms Some
      by (auto simp: store_reference_ref store_reference_files)
  next
    case None
    show ?thesis
      using nq None assms
      by (auto simp: upload_one_def Let_def split_beta store_reference_ref store_reference_files
          split: option.splits if_splits)
  qed
qed

text \<open>
  C10 (as amended). The declared content type never decides whether an upload succeeds:
  the same request with any other declared types has the same HTTP status. In a round
  that ends normally a mismatch adds one warning to the console and nothing else is
  written there. For content that is new, the content record and the reference get the
  declared type when it is not empty, and the detected type otherwise; for content that
  is already stored, the reference takes the type of the existing record, which stays.
\<close>

theorem mime_mismatch_only_warns:
  "response_status (fst (upload_handler D s (req\<lparr>up_files := retype tys (up_files req)\<rparr>)))
     = response_status (fst (upload_handler D s req))
   \<and> (upload_one D user ud qd req file tot s = (Inr (tot', ref), s') \<longrightarrow>
        console s' = console s @
          (if mime_mismatch (f_type file) (getMimeTypeFromBuffer (f_data file))
           then [Warn (f_name file) (f_type file) (getMimeTypeFromBuffer (f_data file))]
           else [])
        \<and> (case files s (calculateFileHash D (f_data file)) of
              None \<Rightarrow>
                fr_mime_type ref = js_or (f_type file) (getMimeTypeFromBuffer (f_data file))
                \<and> map_option fd_mime_type (files s' (calculateFileHash D (f_data file)))
                    = Some (js_or (f_type file) (getMimeTypeFromBuffer (f_data file)))
            | Some fd \<Rightarrow>
                fr_mime_type ref = fd_mime_type fd
                \<and> map_option fd_mime_type (files s' (calculateFileHash D (f_data file)))
                    = Some (fd_mime_type fd)))"
proof (intro conjI impI)
  show "response_status (fst (upload_handler D s (req\<lparr>up_files := retype tys (up_files req)\<rparr>)))
     = response_status (fst (upload_handler D s req))"
    by (rule upload_status_retype)
next
  assume a: "upload_one D user ud qd req file tot s = (Inr (tot', ref), s')"
  show "console s' = console s @
          (if mime_mismatch (f_type file) (getMimeTypeFromBuffer (f_data file))
           then [Warn (f_name file) (f_type file) (getMimeTypeFromBuffer (f_data file))]
           else [])"
    using upload_one_console[OF a] by (simp add: warn_mismatch_def Let_def)
next
  assume a: "upload_one D user ud qd req file tot s = (Inr (tot', ref), s')"
  show "case files s (calculateFileHash D (f_data file)) of
              None \<Rightarrow>
                fr_mime_type ref = js_or (f_type file) (getMimeTypeFromBuffer (f_data file))
                \<and> map_option fd_mime_type (files s' (calculateFileHash D (f_data file)))
                    = Some (js_or (f_type file) (getMimeTypeFromBuffer (f_data file)))
            | Some fd \<Rightarrow>
                fr_mime_type ref = fd_mime_type fd
                \<and> map_option fd_mime_type (files s' (calculateFileHash D (f_data file)))
                    = Some (fd_mime_type fd)"
    by (rule upload_one_mime[OF a])
qed


text \<open>Bob uploads PNG bytes declared as \<open>text/plain\<close>.\<close>

theorem mime_mismatch_only_warns_witness:
  "mime_mismatch (f_type bob_png) (getMimeTypeFromBuffer (f_data bob_png))
   \<and> response_status (fst (upload_handler sample_digest store2 (upload_by bob 7000 [bob_png]))) = 200
   \<and> response_status (fst (upload_handler sample_digest store2
         ((upload_by bob 7000 [bob_png])\<lparr>up_files := [bob_png\<lparr>f_type := ''image/png''\<rparr>]\<rparr>))) = 200
   \<and> fst (upload_one sample_digest bob None None (upload_by bob 7000 [bob_png]) bob_png 0 store2)
       = Inr (0, bob_ref)
   \<and> console after_bob_round = console store2 @ [Warn ''b.txt'' ''text/plain'' ''image/png'']
   \<and> fr_mime_type bob_ref = ''image/png''
   \<and> map_option fd_mime_type (files after_bob_round ''89'') = Some ''image/png''"
proof -
  have m: "mime_mismatch (f_type bob_png) (getMimeTypeFromBuffer (f_data bob_png))"
    by code_simp
  have g: "getMimeTypeFromBuffer (f_data bob_png) = ''image/png''" by code_simp
  have n: "f_name bob_png = ''b.txt''" "f_type bob_png = ''text/plain''"
    by (simp_all add: bob_png_def)
  have st: "response_status (fst (upload_handler sample_digest store2
              (upload_by bob 7000 [bob_png]))) = 200"
    by code_simp
  have fs: "retype [''image/png''] (up_files (upload_by bob 7000 [bob_png]))
              = [bob_png\<lparr>f_type := ''image/png''\<rparr>]"
    by (simp add: upload_by_def)
  have f: "fst (upload_one sample_digest bob None None (upload_by bob 7000 [bob_png]) bob_png 0
                  store2) = Inr (0, bob_ref)"
    by code_simp
  then have one: "upload_one sample_digest bob None None (upload_by bob 7000 [bob_png]) bob_png 0
                    store2 = (Inr (0, bob_ref), after_bob_round)"
    by (simp add: after_bob_round_def prod_eq_iff)
  have hh: "calculateFileHash sample_digest (f_data bob_png) = ''89''" by code_simp
  have rec: "files store2 ''89'' = Some png_record" by code_simp
  have ty: "fd_mime_type png_record = ''image/png''" by (simp add: png_record_def)
  show ?thesis
    using mime_mismatch_only_warns[of sample_digest store2 "[''image/png'']"
        "upload_by bob 7000 [bob_png]" bob None None bob_png 0 0 bob_ref after_bob_round]
      m g n st fs f one hh rec ty
    by simp
qed

text \<open>
  The claim as first stated has the stored type equal to the declared one whenever that
  is not empty. Bob declares \<open>text/plain\<close> for bytes that are stored already: his
  reference and the content record carry \<open>image/png\<close>, the type Alice declared.
\<close>

theorem mime_mismatch_only_warns_counterexample:
  "f_type bob_png = ''text/plain''
   \<and> f_type bob_png \<noteq> []
   \<and> fst (upload_handler sample_digest store2 (upload_by bob 7000 [bob_png])) = Success [bob_ref]
   \<and> map_option fr_mime_type (file_refs after_bob_png ''u2:89:7'') = Some ''image/png''
   \<and> map_option fd_mime_type (files after_bob_png ''89'') = Some ''image/png''
   \<and> map_option fr_mime_type (file_refs after_bob_png ''u2:89:7'') \<noteq> Some (f_type bob_png)
   \<and> map_option fd_mime_type (files after_bob_png ''89'') \<noteq> Some (f_type bob_png)"
  by code_simp

section \<open>Deleting the same id again\<close>










end
